theory Spec2Isabelle
  imports Main "HOL-Library.AList" "HOL-Library.Sublist"
begin

section \<open>Text as Python sees it\<close>

text \<open>
  A Python \<^verbatim>\<open>str\<close> is a sequence of Unicode code points, so a text is a list of
  naturals. File names, archive entry names and diagnostics are ASCII-compatible byte
  strings and stay \<^typ>\<open>string\<close>. A file holds its decoded text (the encoding of
  \<^verbatim>\<open>read_text\<close> and \<^verbatim>\<open>write_text\<close> is the same on both sides and is not
  modelled); on POSIX \<^verbatim>\<open>write_text\<close> writes a line feed (10) unchanged, and
  \<^verbatim>\<open>read_text\<close> translates a carriage return (13), alone or before a line feed,
  to a line feed.
\<close>

type_synonym pystr = "nat list"

definition str :: "string \<Rightarrow> pystr" where
  "str s = map of_char s"

text \<open>The line boundaries of \<^verbatim>\<open>str.splitlines\<close>.\<close>

definition is_linebreak :: "nat \<Rightarrow> bool" where
  "is_linebreak c \<longleftrightarrow> c \<in> set [10, 11, 12, 13, 28, 29, 30, 133, 8232, 8233]"

text \<open>The characters \<^verbatim>\<open>str.strip()\<close> removes: those with \<^verbatim>\<open>str.isspace\<close>.\<close>

definition isspace :: "nat \<Rightarrow> bool" where
  "isspace c \<longleftrightarrow>
     (9 \<le> c \<and> c \<le> 13) \<or> (28 \<le> c \<and> c \<le> 32) \<or> c = 133 \<or> c = 160 \<or> c = 5760 \<or>
     (8192 \<le> c \<and> c \<le> 8202) \<or> c = 8232 \<or> c = 8233 \<or> c = 8239 \<or> c = 8287 \<or> c = 12288"

text \<open>Text mode with \<^verbatim>\<open>newline=None\<close>, reading.\<close>

fun universal_newlines :: "pystr \<Rightarrow> pystr" where
  "universal_newlines [] = []"
| "universal_newlines [c] = [if c = 13 then 10 else c]"
| "universal_newlines (c # d # cs) =
     (if c = 13 \<and> d = 10 then 10 # universal_newlines cs
      else if c = 13 then 10 # universal_newlines (d # cs)
      else c # universal_newlines (d # cs))"

text \<open>
  \<^verbatim>\<open>str.splitlines()\<close>: the first argument is the line read so far. A last line
  without a terminator is kept when it is not empty.
\<close>

fun splitlines_from :: "pystr \<Rightarrow> pystr \<Rightarrow> pystr list" where
  "splitlines_from cur [] = (if cur = [] then [] else [cur])"
| "splitlines_from cur [c] = (if is_linebreak c then [cur] else [cur @ [c]])"
| "splitlines_from cur (c # d # cs) =
     (if c = 13 \<and> d = 10 then cur # splitlines_from [] cs
      else if is_linebreak c then cur # splitlines_from [] (d # cs)
      else splitlines_from (cur @ [c]) (d # cs))"

definition splitlines :: "pystr \<Rightarrow> pystr list" where
  "splitlines s = splitlines_from [] s"

definition lstrip :: "pystr \<Rightarrow> pystr" where
  "lstrip s = dropWhile isspace s"

definition rstrip :: "pystr \<Rightarrow> pystr" where
  "rstrip s = rev (dropWhile isspace (rev s))"

definition strip :: "pystr \<Rightarrow> pystr" where
  "strip s = rstrip (lstrip s)"

text \<open>\<^verbatim>\<open>sep.join(parts)\<close>.\<close>

fun join :: "pystr \<Rightarrow> pystr list \<Rightarrow> pystr" where
  "join sep [] = []"
| "join sep [x] = x"
| "join sep (x # y # ys) = x @ sep @ join sep (y # ys)"

section \<open>Step 4: the properties table\<close>

text \<open>
  A Python \<^verbatim>\<open>dict\<close> keeps its keys in insertion order; assigning to a key that is
  present replaces the value in place, assigning to a new key appends it.
\<close>

type_synonym dict = "(pystr \<times> pystr) list"

fun setitem :: "pystr \<Rightarrow> pystr \<Rightarrow> dict \<Rightarrow> dict" where
  "setitem k v [] = [(k, v)]"
| "setitem k v ((k', v') # d) = (if k' = k then (k, v) # d else (k', v') # setitem k v d)"

text \<open>The separator \<^verbatim>\<open>=\<close> is code point 61; \<^verbatim>\<open>line.split("=", 1)\<close> cuts at the first one.\<close>

definition sep :: nat where
  "sep = 61"

definition before_sep :: "pystr \<Rightarrow> pystr" where
  "before_sep line = takeWhile (\<lambda>c. c \<noteq> sep) line"

definition after_sep :: "pystr \<Rightarrow> pystr" where
  "after_sep line = tl (dropWhile (\<lambda>c. c \<noteq> sep) line)"

text \<open>The body of the loop over the lines of the file.\<close>

definition parse_line :: "dict \<Rightarrow> pystr \<Rightarrow> dict" where
  "parse_line props line =
     (if sep \<in> set line
      then setitem (strip (before_sep line)) (strip (after_sep line)) props
      else props)"

definition file_lines :: "pystr \<Rightarrow> pystr list" where
  "file_lines content = splitlines (universal_newlines content)"

definition parse_props :: "pystr \<Rightarrow> dict" where
  "parse_props content = foldl parse_line [] (file_lines content)"

definition enforce_mandatory :: "dict \<Rightarrow> dict" where
  "enforce_mandatory props =
     setitem (str ''org.gradle.jvmargs'') (str ''-Xmx2048m'')
       (setitem (str ''android.enableJetifier'') (str ''true'')
         (setitem (str ''android.useAndroidX'') (str ''true'') props))"

definition render :: "dict \<Rightarrow> pystr" where
  "render props = join [10] (map (\<lambda>(k, v). k @ [sep] @ v) props) @ [10]"

text \<open>
  The table and the text step 4 writes, from the content of \<^verbatim>\<open>gradle.properties\<close>
  (\<open>None\<close> when the file does not exist).
\<close>

definition props_table :: "pystr option \<Rightarrow> dict" where
  "props_table existing =
     enforce_mandatory (case existing of None \<Rightarrow> [] | Some content \<Rightarrow> parse_props content)"

definition enforce_props :: "pystr option \<Rightarrow> pystr" where
  "enforce_props existing = render (props_table existing)"

subsection \<open>Vocabulary for the statements about the table\<close>

text \<open>The key and value a line with a separator stands for.\<close>

definition line_pair :: "pystr \<Rightarrow> pystr \<times> pystr" where
  "line_pair line = (strip (before_sep line), strip (after_sep line))"

definition mandatory :: dict where
  "mandatory =
     [(str ''android.useAndroidX'', str ''true''),
      (str ''android.enableJetifier'', str ''true''),
      (str ''org.gradle.jvmargs'', str ''-Xmx2048m'')]"

text \<open>The pairs of the lines that have a separator, in file order.\<close>

definition file_pairs :: "pystr \<Rightarrow> dict" where
  "file_pairs content = map line_pair (filter (\<lambda>l. sep \<in> set l) (file_lines content))"

text \<open>The elements of a list in the order in which each is first seen.\<close>

definition first_seen :: "'a list \<Rightarrow> 'a list" where
  "first_seen xs = foldl (\<lambda>acc x. if x \<in> set acc then acc else acc @ [x]) [] xs"

text \<open>The value of the last pair with key \<open>k\<close>.\<close>

definition last_value :: "dict \<Rightarrow> pystr \<Rightarrow> pystr option" where
  "last_value pairs k = map_of (rev pairs) k"

text \<open>A text that \<^verbatim>\<open>strip\<close> leaves alone has no white space at either end.\<close>

definition stripped :: "pystr \<Rightarrow> bool" where
  "stripped s \<longleftrightarrow> s = [] \<or> (\<not> isspace (hd s) \<and> \<not> isspace (last s))"

text \<open>Assigning a list of pairs in order, as the loop and the three assignments do.\<close>

definition setpairs :: "dict \<Rightarrow> dict \<Rightarrow> dict" where
  "setpairs d ps = foldl (\<lambda>d (k, v). setitem k v d) d ps"

text \<open>A text without line boundary, and a pair that is written and read back unchanged.\<close>

definition no_break :: "pystr \<Rightarrow> bool" where
  "no_break s \<longleftrightarrow> (\<forall>c \<in> set s. \<not> is_linebreak c)"

definition clean_pair :: "pystr \<times> pystr \<Rightarrow> bool" where
  "clean_pair p \<longleftrightarrow>
     no_break (fst p) \<and> no_break (snd p) \<and> sep \<notin> set (fst p) \<and> stripped (fst p) \<and> stripped (snd p)"

section \<open>The world the script runs in\<close>

text \<open>
  The script works on the file system below and around its working directory, reads the
  clock once and downloads one archive. A path is the list of its components from the
  root directory; the file system is a finite table from paths to nodes. A directory
  is listed like any other node, so a path exists when the table has it. Symbolic links,
  access rights that forbid an operation, full disks and text that cannot be encoded are
  not modelled: an operation fails only for the reasons written out here.
\<close>

type_synonym path = "string list"

datatype node = File pystr nat | Dir nat

type_synonym fs = "(path \<times> node) list"

datatype exn =
  FileNotFoundError | FileExistsError | IsADirectoryError | NotADirectoryError
  | SameFileError | DirectoryNotEmpty | InvalidArgument | KeyError
  | URLError | ContentTooShortError | BadZipFile

text \<open>
  An operation returns the exception it raised, if any, and the file system it left
  behind.
\<close>

type_synonym result = "exn option \<times> fs"

definition then_fs :: "result \<Rightarrow> (fs \<Rightarrow> result) \<Rightarrow> result" where
  "then_fs r k = (case r of (None, t) \<Rightarrow> k t | (Some e, t) \<Rightarrow> (Some e, t))"

definition lookup :: "fs \<Rightarrow> path \<Rightarrow> node option" where
  "lookup t p = map_of t p"

text \<open>\<^verbatim>\<open>Path.exists()\<close>, \<^verbatim>\<open>os.path.exists\<close>, \<^verbatim>\<open>os.path.isdir\<close>.\<close>

definition path_exists :: "fs \<Rightarrow> path \<Rightarrow> bool" where
  "path_exists t p \<longleftrightarrow> lookup t p \<noteq> None"

definition is_dir :: "fs \<Rightarrow> path \<Rightarrow> bool" where
  "is_dir t p = (case lookup t p of Some (Dir m) \<Rightarrow> True | _ \<Rightarrow> False)"

text \<open>The entries strictly below a path.\<close>

definition below :: "path \<Rightarrow> path \<Rightarrow> bool" where
  "below d q \<longleftrightarrow> strict_prefix d q"

definition has_entries :: "fs \<Rightarrow> path \<Rightarrow> bool" where
  "has_entries t d = list_ex (\<lambda>e. below d (fst e)) t"

text \<open>
  A well-formed file system: the root is a directory and every other entry lies in a
  directory.
\<close>

definition wf_fs :: "fs \<Rightarrow> bool" where
  "wf_fs t \<longleftrightarrow> is_dir t [] \<and> list_all (\<lambda>e. fst e = [] \<or> is_dir t (butlast (fst e))) t"

text \<open>
  Opening a file for writing and writing its whole content (\<^verbatim>\<open>write_text\<close>,
  \<^verbatim>\<open>open(p, "wb")\<close>): a new file gets the mode \<open>m0\<close> (\<^verbatim>\<open>0o666\<close> without the bits
  of the umask), an existing one keeps its mode.
\<close>

definition write_file :: "fs \<Rightarrow> path \<Rightarrow> pystr \<Rightarrow> nat \<Rightarrow> result" where
  "write_file t p c m0 =
     (case lookup t (butlast p) of
        None \<Rightarrow> (Some FileNotFoundError, t)
      | Some (File c' m) \<Rightarrow> (Some NotADirectoryError, t)
      | Some (Dir m) \<Rightarrow>
          (case lookup t p of
             Some (Dir m') \<Rightarrow> (Some IsADirectoryError, t)
           | Some (File c' m') \<Rightarrow> (None, AList.update p (File c m') t)
           | None \<Rightarrow> (None, AList.update p (File c m0) t)))"

text \<open>\<^verbatim>\<open>os.mkdir\<close>.\<close>

definition mkdir :: "fs \<Rightarrow> path \<Rightarrow> nat \<Rightarrow> result" where
  "mkdir t p m0 =
     (case lookup t (butlast p) of
        None \<Rightarrow> (Some FileNotFoundError, t)
      | Some (File c' m) \<Rightarrow> (Some NotADirectoryError, t)
      | Some (Dir m) \<Rightarrow>
          (if path_exists t p then (Some FileExistsError, t)
           else (None, AList.update p (Dir m0) t)))"

text \<open>
  \<^verbatim>\<open>Path.mkdir(exist_ok=True)\<close> without \<^verbatim>\<open>parents\<close>: a missing parent is an error,
  any other failure is forgiven when the path is a directory.
\<close>

definition mkdir_exist_ok :: "fs \<Rightarrow> path \<Rightarrow> nat \<Rightarrow> result" where
  "mkdir_exist_ok t p m0 =
     (case mkdir t p m0 of
        (None, t') \<Rightarrow> (None, t')
      | (Some e, t') \<Rightarrow>
          if e \<noteq> FileNotFoundError \<and> is_dir t' p then (None, t') else (Some e, t'))"

text \<open>\<^verbatim>\<open>Path.mkdir(parents=True, exist_ok=True)\<close>.\<close>

function mkdir_parents :: "fs \<Rightarrow> path \<Rightarrow> nat \<Rightarrow> result" where
  "mkdir_parents t p m0 =
     (case mkdir t p m0 of
        (None, t') \<Rightarrow> (None, t')
      | (Some e, t') \<Rightarrow>
          if e = FileNotFoundError then
            (if p = [] then (Some e, t')
             else then_fs (mkdir_parents t' (butlast p) m0) (\<lambda>t1. mkdir_exist_ok t1 p m0))
          else if is_dir t' p then (None, t') else (Some e, t'))"
  by pat_completeness auto
termination
  by (relation "measure (\<lambda>(t, p, m0). length p)") auto

declare mkdir_parents.simps [simp del]

text \<open>\<^verbatim>\<open>os.makedirs(p)\<close>, as \<^verbatim>\<open>ZipFile.extract\<close> calls it.\<close>

function makedirs :: "fs \<Rightarrow> path \<Rightarrow> nat \<Rightarrow> result" where
  "makedirs t p m0 =
     (if p \<noteq> [] \<and> \<not> path_exists t (butlast p) then
        (case makedirs t (butlast p) m0 of
           (None, t1) \<Rightarrow> mkdir t1 p m0
         | (Some e, t1) \<Rightarrow> if e = FileExistsError then mkdir t1 p m0 else (Some e, t1))
      else mkdir t p m0)"
  by pat_completeness auto
termination
  by (relation "measure (\<lambda>(t, p, m0). length p)") auto

declare makedirs.simps [simp del]

text \<open>\<^verbatim>\<open>Path.chmod\<close> and \<^verbatim>\<open>Path.unlink\<close>.\<close>

definition chmod :: "fs \<Rightarrow> path \<Rightarrow> nat \<Rightarrow> result" where
  "chmod t p m =
     (case lookup t p of
        None \<Rightarrow> (Some FileNotFoundError, t)
      | Some (File c m') \<Rightarrow> (None, AList.update p (File c m) t)
      | Some (Dir m') \<Rightarrow> (None, AList.update p (Dir m) t))"

definition unlink :: "fs \<Rightarrow> path \<Rightarrow> result" where
  "unlink t p =
     (case lookup t p of
        None \<Rightarrow> (Some FileNotFoundError, t)
      | Some (Dir m) \<Rightarrow> (Some IsADirectoryError, t)
      | Some (File c m) \<Rightarrow> (None, AList.delete p t))"

text \<open>
  \<^verbatim>\<open>shutil.copy(src, dst)\<close>: into \<open>dst\<close> when it is a directory; the content, then the
  permission bits.
\<close>

definition copy :: "fs \<Rightarrow> path \<Rightarrow> path \<Rightarrow> nat \<Rightarrow> result" where
  "copy t src dst m0 =
     (let dst' = (if is_dir t dst then dst @ [last src] else dst) in
      case lookup t src of
        None \<Rightarrow> (Some FileNotFoundError, t)
      | Some (Dir m) \<Rightarrow> (Some IsADirectoryError, t)
      | Some (File c m) \<Rightarrow>
          if dst' = src then (Some SameFileError, t)
          else then_fs (write_file t dst' c m0) (\<lambda>t1. chmod t1 dst' m))"

text \<open>
  How the system resolves a path given as a start directory and further components:
  every component is looked up in a directory, and \<^verbatim>\<open>..\<close> is the parent.
\<close>

fun resolve :: "fs \<Rightarrow> path \<Rightarrow> string list \<Rightarrow> exn + path" where
  "resolve t cur [] = Inr cur"
| "resolve t cur (c # cs) =
     (case lookup t cur of
        None \<Rightarrow> Inl FileNotFoundError
      | Some (File c' m) \<Rightarrow> Inl NotADirectoryError
      | Some (Dir m) \<Rightarrow> resolve t (if c = ''..'' then butlast cur else cur @ [c]) cs)"

text \<open>Moving the entry \<open>src\<close> and all below it to \<open>dst\<close>.\<close>

definition move_tree :: "fs \<Rightarrow> path \<Rightarrow> path \<Rightarrow> fs" where
  "move_tree t src dst =
     filter (\<lambda>e. \<not> prefix src (fst e) \<and> \<not> prefix dst (fst e)) t @
     map (\<lambda>e. (dst @ drop (length src) (fst e), snd e))
       (filter (\<lambda>e. prefix src (fst e)) (AList.clearjunk t))"

text \<open>\<^verbatim>\<open>os.rename(src, dst)\<close> on resolved paths.\<close>

definition rename :: "fs \<Rightarrow> path \<Rightarrow> path \<Rightarrow> result" where
  "rename t src dst =
     (case lookup t src of
        None \<Rightarrow> (Some FileNotFoundError, t)
      | Some (File c m) \<Rightarrow>
          (case lookup t (butlast dst) of
             None \<Rightarrow> (Some FileNotFoundError, t)
           | Some (File c' m') \<Rightarrow> (Some NotADirectoryError, t)
           | Some (Dir m') \<Rightarrow>
               (case lookup t dst of
                  Some (Dir m'') \<Rightarrow> (Some IsADirectoryError, t)
                | _ \<Rightarrow> if src = dst then (None, t)
                       else (None, AList.update dst (File c m) (AList.delete src t))))
      | Some (Dir m) \<Rightarrow>
          (case lookup t (butlast dst) of
             None \<Rightarrow> (Some FileNotFoundError, t)
           | Some (File c' m') \<Rightarrow> (Some NotADirectoryError, t)
           | Some (Dir m') \<Rightarrow>
               if src = dst then (None, t)
               else if prefix src dst then (Some InvalidArgument, t)
               else (case lookup t dst of
                       Some (File c' m'') \<Rightarrow> (Some NotADirectoryError, t)
                     | Some (Dir m'') \<Rightarrow>
                         if has_entries t dst then (Some DirectoryNotEmpty, t)
                         else (None, move_tree t src dst)
                     | None \<Rightarrow> (None, move_tree t src dst))))"

text \<open>
  \<^verbatim>\<open>shutil.rmtree(path, ignore_errors=True)\<close>, the path given as a start directory and
  components: a directory loses everything below it and is removed itself, unless it was
  named through \<^verbatim>\<open>..\<close> (the final \<^verbatim>\<open>rmdir\<close> of such a name fails); anything else
  is left as it is.
\<close>

definition rmtree_ignore_errors :: "fs \<Rightarrow> path \<Rightarrow> string list \<Rightarrow> fs" where
  "rmtree_ignore_errors t start parts =
     (case resolve t start parts of
        Inl e \<Rightarrow> t
      | Inr d \<Rightarrow>
          if \<not> is_dir t d then t
          else if d = [] \<or> (parts \<noteq> [] \<and> last parts = ''..'')
          then filter (\<lambda>e. \<not> below d (fst e)) t
          else filter (\<lambda>e. \<not> prefix d (fst e)) t)"

subsection \<open>Names\<close>

text \<open>\<^verbatim>\<open>str.split(sep)\<close> for a one-character separator, and \<^verbatim>\<open>str.endswith\<close>.\<close>

fun split_on :: "char \<Rightarrow> string \<Rightarrow> string list" where
  "split_on c [] = [[]]"
| "split_on c (x # xs) =
     (if x = c then [] # split_on c xs
      else (case split_on c xs of w # ws \<Rightarrow> (x # w) # ws | [] \<Rightarrow> [[x]]))"

definition endswith :: "string \<Rightarrow> string \<Rightarrow> bool" where
  "endswith s t \<longleftrightarrow> length t \<le> length s \<and> drop (length s - length t) s = t"

text \<open>
  \<^verbatim>\<open>base / s\<close> of \<^verbatim>\<open>pathlib\<close>: the text is cut at the slashes, empty components and
  \<^verbatim>\<open>.\<close> are dropped, \<^verbatim>\<open>..\<close> is kept, and a text that starts with a slash replaces
  the base. The result is the directory to start from and the components to follow.
\<close>

definition components :: "string \<Rightarrow> string list" where
  "components s = filter (\<lambda>x. x \<noteq> [] \<and> x \<noteq> ''.'') (split_on CHR ''/'' s)"

definition joinpath :: "path \<Rightarrow> string \<Rightarrow> path \<times> string list" where
  "joinpath base s = (if s \<noteq> [] \<and> hd s = CHR ''/'' then ([], components s) else (base, components s))"

subsection \<open>Archives\<close>

text \<open>
  A zip archive as \<^verbatim>\<open>zipfile.ZipFile\<close> presents it: its entries in the order of the
  directory, each a name and the data. \<^verbatim>\<open>namelist()\<close> lists every entry;
  \<^verbatim>\<open>getinfo(name)\<close> looks the name up in a dictionary that the entries were put into in
  order, so that of two entries with one name it finds the later one.
\<close>

type_synonym archive = "(string \<times> pystr) list"

definition namelist :: "archive \<Rightarrow> string list" where
  "namelist z = map fst z"

definition getinfo :: "archive \<Rightarrow> string \<Rightarrow> pystr option" where
  "getinfo z n = map_of (rev z) n"

text \<open>
  \<^verbatim>\<open>ZipFile.extract(name, dir)\<close>: the components \<^verbatim>\<open>..\<close>, \<^verbatim>\<open>.\<close> and the empty
  one are dropped from the name, missing directories above the target are made, and the
  data is written to the target.
\<close>

definition arcname :: "string \<Rightarrow> string list" where
  "arcname n = filter (\<lambda>x. x \<noteq> [] \<and> x \<noteq> ''.'' \<and> x \<noteq> ''..'') (split_on CHR ''/'' n)"

definition extract_member :: "fs \<Rightarrow> path \<Rightarrow> string \<Rightarrow> pystr \<Rightarrow> nat \<Rightarrow> nat \<Rightarrow> result" where
  "extract_member t dir n dat fm dm =
     (let target = dir @ arcname n; upper = butlast target in
      then_fs (if \<not> path_exists t upper then makedirs t upper dm else (None, t))
        (\<lambda>t1. write_file t1 target dat fm))"

subsection \<open>The clock\<close>

record datetime =
  year :: nat
  month :: nat
  day :: nat
  hour :: nat
  minute :: nat
  second :: nat

definition digit :: "nat \<Rightarrow> char" where
  "digit n = char_of (48 + n mod 10)"

definition two_digits :: "nat \<Rightarrow> string" where
  "two_digits n = [digit (n div 10), digit n]"

fun decimal_fuel :: "nat \<Rightarrow> nat \<Rightarrow> string" where
  "decimal_fuel 0 n = [digit n]"
| "decimal_fuel (Suc k) n = (if n < 10 then [digit n] else decimal_fuel k (n div 10) @ [digit n])"

text \<open>The decimal digits of a number; it has at most as many digits as its value.\<close>

definition decimal :: "nat \<Rightarrow> string" where
  "decimal n = decimal_fuel n n"

text \<open>\<^verbatim>\<open>strftime("%Y%m%d_%H%M%S")\<close>.\<close>

definition strftime :: "datetime \<Rightarrow> string" where
  "strftime d =
     decimal (year d) @ two_digits (month d) @ two_digits (day d) @ ''_'' @
     two_digits (hour d) @ two_digits (minute d) @ two_digits (second d)"

text \<open>A text of the shape \<^verbatim>\<open>YYYYMMDD_HHMMSS\<close>.\<close>

definition is_digit :: "char \<Rightarrow> bool" where
  "is_digit c \<longleftrightarrow> (48 :: nat) \<le> of_char c \<and> of_char c \<le> (57 :: nat)"

definition stamp_shape :: "string \<Rightarrow> bool" where
  "stamp_shape s \<longleftrightarrow>
     length s = 15 \<and> list_all is_digit (take 8 s) \<and> s ! 8 = CHR ''_'' \<and>
     list_all is_digit (drop 9 s)"

section \<open>The script\<close>

text \<open>
  What the script is given: its working directory, the modes that new files and new
  directories get, the time, what the download of the distribution yields and how the
  bytes of a file read as a zip archive (nothing, when they are not one).
\<close>

datatype download = Unreachable | Interrupted pystr | Fetched pystr

record env =
  cwd :: path
  new_file_mode :: nat
  new_dir_mode :: nat
  now :: datetime
  fetch :: download
  unzip :: "pystr \<Rightarrow> archive option"

text \<open>
  What the script changes: the file system, the lines it prints and the addresses it
  requests.
\<close>

datatype msg = Plain string | Ok string | Info string | Fail string

record world =
  files :: fs
  printed :: "msg list"
  requests :: "string list"

text \<open>
  The script goes on, leaves with an exit status (\<^verbatim>\<open>sys.exit\<close>), or stops with an
  exception nobody catches.
\<close>

datatype outcome = Done | Exited nat | Raised exn

type_synonym step = "world \<Rightarrow> outcome \<times> world"

definition and_then :: "step \<Rightarrow> step \<Rightarrow> step" where
  "and_then s1 s2 w = (case s1 w of (Done, w1) \<Rightarrow> s2 w1 | (out, w1) \<Rightarrow> (out, w1))"

definition say :: "msg \<Rightarrow> world \<Rightarrow> world" where
  "say m w = w\<lparr>printed := printed w @ [m]\<rparr>"

definition tell :: "msg \<Rightarrow> step" where
  "tell m w = (Done, say m w)"

definition die :: "string \<Rightarrow> step" where
  "die m w = (Exited 1, say (Fail m) w)"

text \<open>A file system operation as a step: an exception stops the script.\<close>

definition attempt :: "(fs \<Rightarrow> result) \<Rightarrow> step" where
  "attempt f w =
     (case f (files w) of
        (None, t) \<Rightarrow> (Done, w\<lparr>files := t\<rparr>)
      | (Some e, t) \<Rightarrow> (Raised e, w\<lparr>files := t\<rparr>))"

subsection \<open>The paths\<close>

definition BACKUP_DIR :: "env \<Rightarrow> path" where
  "BACKUP_DIR E = cwd E @ [''.prepush_backup'']"

definition GRADLE_VERSION :: string where
  "GRADLE_VERSION = ''8.2.1''"

definition wrapper_dir :: "env \<Rightarrow> path" where
  "wrapper_dir E = cwd E @ [''gradle'', ''wrapper'']"

definition wrapper_jar :: "env \<Rightarrow> path" where
  "wrapper_jar E = wrapper_dir E @ [''gradle-wrapper.jar'']"

definition wrapper_props :: "env \<Rightarrow> path" where
  "wrapper_props E = wrapper_dir E @ [''gradle-wrapper.properties'']"

definition gradlew :: "env \<Rightarrow> path" where
  "gradlew E = cwd E @ [''gradlew'']"

definition zip_path :: "env \<Rightarrow> path" where
  "zip_path E = cwd E @ [''gradle-'' @ GRADLE_VERSION @ ''.zip'']"

definition url :: string where
  "url = ''https://services.gradle.org/distributions/gradle-'' @ GRADLE_VERSION @ ''-bin.zip''"

subsection \<open>The texts\<close>

text \<open>A string literal of several lines, given by its lines.\<close>

definition literal :: "string list \<Rightarrow> pystr" where
  "literal ls = join [10] (map str ls)"

definition settings_gradle_text :: pystr where
  "settings_gradle_text = strip (literal
     ['''',
      ''pluginManagement {'',
      ''    repositories {'',
      ''        google()'',
      ''        mavenCentral()'',
      ''        gradlePluginPortal()'',
      ''    }'',
      ''    plugins {'',
      ''        id \"com.android.application\" version \"8.1.2\" apply false'',
      ''    }'',
      ''}'',
      '''',
      ''dependencyResolutionManagement {'',
      ''    repositoriesMode.set(RepositoriesMode.FAIL_ON_PROJECT_REPOS)'',
      ''    repositories {'',
      ''        google()'',
      ''        mavenCentral()'',
      ''    }'',
      ''}'',
      '''',
      ''rootProject.name = \"Amaal\"'',
      ''include(\":app\")'',
      '''']) @ [10]"

definition build_gradle_text :: pystr where
  "build_gradle_text = strip (literal
     ['''',
      ''tasks.register(\"clean\", Delete) {'',
      ''    delete rootProject.buildDir'',
      ''}'',
      '''']) @ [10]"

text \<open>The address in the wrapper properties has a backslash (92) before its colon.\<close>

definition wrapper_props_text :: pystr where
  "wrapper_props_text = strip (join [10]
     [[],
      str ''distributionBase=GRADLE_USER_HOME'',
      str ''distributionPath=wrapper/dists'',
      str ''distributionUrl=https'' @ [92] @
        str (''://services.gradle.org/distributions/gradle-'' @ GRADLE_VERSION @ ''-bin.zip''),
      str ''zipStoreBase=GRADLE_USER_HOME'',
      str ''zipStorePath=wrapper/dists'',
      []]) @ [10]"

subsection \<open>Step 0: the project is there\<close>

definition required :: "string list" where
  "required = [''app'', ''settings.gradle'', ''build.gradle'']"

fun check_required :: "env \<Rightarrow> string list \<Rightarrow> step" where
  "check_required E [] w = (Done, w)"
| "check_required E (r # rs) w =
     (if \<not> path_exists (files w) (cwd E @ [r])
      then die (''Missing required project item: '' @ r) w
      else check_required E rs w)"

definition step0 :: "env \<Rightarrow> step" where
  "step0 E = and_then (check_required E required) (tell (Ok ''Project structure detected''))"

subsection \<open>Step 1: the backup, once\<close>

definition backup_name :: "string \<Rightarrow> string \<Rightarrow> string" where
  "backup_name f timestamp = f @ ''.'' @ timestamp @ ''.bak''"

fun backup_files :: "env \<Rightarrow> string \<Rightarrow> string list \<Rightarrow> step" where
  "backup_files E timestamp [] w = (Done, w)"
| "backup_files E timestamp (f # fs) w =
     (if path_exists (files w) (cwd E @ [f])
      then and_then
             (attempt (\<lambda>t. copy t (cwd E @ [f]) (BACKUP_DIR E @ [backup_name f timestamp])
                (new_file_mode E)))
             (backup_files E timestamp fs) w
      else backup_files E timestamp fs w)"

definition backed_up :: "string list" where
  "backed_up = [''settings.gradle'', ''build.gradle'', ''gradle.properties'']"

definition step1 :: "env \<Rightarrow> step" where
  "step1 E w =
     (if \<not> path_exists (files w) (BACKUP_DIR E)
      then and_then (attempt (\<lambda>t. mkdir t (BACKUP_DIR E) (new_dir_mode E)))
             (and_then (backup_files E (strftime (now E)) backed_up)
                (tell (Ok ''Original files backed up''))) w
      else tell (Info ''Backup already exists - skipping'') w)"

subsection \<open>Steps 2 to 4: the three files of the root\<close>

definition write_text :: "env \<Rightarrow> path \<Rightarrow> pystr \<Rightarrow> step" where
  "write_text E p c = attempt (\<lambda>t. write_file t p c (new_file_mode E))"

definition step2 :: "env \<Rightarrow> step" where
  "step2 E =
     and_then (write_text E (cwd E @ [''settings.gradle'']) settings_gradle_text)
       (tell (Ok ''settings.gradle normalized''))"

definition step3 :: "env \<Rightarrow> step" where
  "step3 E =
     and_then (write_text E (cwd E @ [''build.gradle'']) build_gradle_text)
       (tell (Ok ''build.gradle sanitized''))"

text \<open>
  Step 4 reads \<^verbatim>\<open>gradle.properties\<close> when it exists; \<^const>\<open>enforce_props\<close> is the
  text it writes back, from the text of the file or from nothing.
\<close>

definition step4 :: "env \<Rightarrow> step" where
  "step4 E w =
     (let gp = cwd E @ [''gradle.properties''] in
      case lookup (files w) gp of
        Some (Dir m) \<Rightarrow> (Raised IsADirectoryError, w)
      | Some (File c m) \<Rightarrow>
          and_then (write_text E gp (enforce_props (Some c)))
            (tell (Ok ''gradle.properties enforced'')) w
      | None \<Rightarrow>
          and_then (write_text E gp (enforce_props None))
            (tell (Ok ''gradle.properties enforced'')) w)"

subsection \<open>Step 5: the wrapper\<close>

text \<open>
  \<^verbatim>\<open>urlretrieve(url, zip_path)\<close>: the address is requested; only when it answers is the
  file opened and written, and a download that breaks off leaves what had arrived.
\<close>

definition urlretrieve :: "env \<Rightarrow> step" where
  "urlretrieve E w =
     (let w1 = w\<lparr>requests := requests w @ [url]\<rparr> in
      case fetch E of
        Unreachable \<Rightarrow> (Raised URLError, w1)
      | Interrupted b \<Rightarrow>
          and_then (attempt (\<lambda>t. write_file t (zip_path E) b (new_file_mode E)))
            (\<lambda>w2. (Raised ContentTooShortError, w2)) w1
      | Fetched b \<Rightarrow> attempt (\<lambda>t. write_file t (zip_path E) b (new_file_mode E)) w1)"

text \<open>The body of the \<^verbatim>\<open>with\<close> block, on the archive that was opened.\<close>

definition install_jar :: "env \<Rightarrow> archive \<Rightarrow> step" where
  "install_jar E z w =
     (let jar_paths = filter (\<lambda>n. endswith n ''gradle-wrapper.jar'') (namelist z) in
      if jar_paths = [] then die ''gradle-wrapper.jar not found in Gradle distribution'' w
      else
        let jar_src = hd jar_paths in
        case getinfo z jar_src of
          None \<Rightarrow> (Raised KeyError, w)
        | Some dat \<Rightarrow>
            and_then
              (attempt (\<lambda>t. extract_member t (wrapper_dir E) jar_src dat
                 (new_file_mode E) (new_dir_mode E)))
              (and_then
                 (attempt (\<lambda>t.
                    case joinpath (wrapper_dir E) jar_src of (start, parts) \<Rightarrow>
                      (case resolve t start parts of
                         Inl e \<Rightarrow> (Some e, t)
                       | Inr extracted \<Rightarrow> rename t extracted (wrapper_jar E))))
                 (\<lambda>w2. (Done, w2\<lparr>files :=
                    (case joinpath (wrapper_dir E) (hd (split_on CHR ''/'' jar_src)) of
                       (start, parts) \<Rightarrow> rmtree_ignore_errors (files w2) start parts)\<rparr>))) w)"

definition open_zip :: "env \<Rightarrow> step" where
  "open_zip E w =
     (case lookup (files w) (zip_path E) of
        None \<Rightarrow> (Raised FileNotFoundError, w)
      | Some (Dir m) \<Rightarrow> (Raised IsADirectoryError, w)
      | Some (File b m) \<Rightarrow>
          (case unzip E b of
             None \<Rightarrow> (Raised BadZipFile, w)
           | Some z \<Rightarrow> install_jar E z w))"

definition ensure_jar :: "env \<Rightarrow> step" where
  "ensure_jar E w =
     (if \<not> path_exists (files w) (wrapper_jar E)
      then and_then (tell (Info (''Downloading Gradle '' @ GRADLE_VERSION @ '' wrapper'')))
             (and_then (urlretrieve E)
                (and_then (open_zip E)
                   (and_then (attempt (\<lambda>t. unlink t (zip_path E)))
                      (tell (Ok ''gradle-wrapper.jar installed''))))) w
      else tell (Ok ''gradle-wrapper.jar already present'') w)"

definition ensure_props :: "env \<Rightarrow> step" where
  "ensure_props E w =
     (if \<not> path_exists (files w) (wrapper_props E)
      then write_text E (wrapper_props E) wrapper_props_text w
      else (Done, w))"

definition step5 :: "env \<Rightarrow> step" where
  "step5 E =
     and_then (attempt (\<lambda>t. mkdir_parents t (wrapper_dir E) (new_dir_mode E)))
       (and_then (ensure_props E) (ensure_jar E))"

subsection \<open>Steps 6 and 7: the launcher and the summary\<close>

text \<open>The mode \<^verbatim>\<open>0o755\<close> is 493.\<close>

definition step6 :: "env \<Rightarrow> step" where
  "step6 E w =
     (if \<not> path_exists (files w) (gradlew E) then die ''gradlew script missing'' w
      else and_then (attempt (\<lambda>t. chmod t (gradlew E) 493)) (tell (Ok ''gradlew executable'')) w)"

definition step7 :: "env \<Rightarrow> step" where
  "step7 E =
     and_then (tell (Plain ''=== RESULT ===''))
       (and_then (tell (Ok ''Project is CI-safe''))
          (and_then (tell (Ok ''No local Gradle dependency''))
             (and_then (tell (Ok ''Ready for GitHub Actions build''))
                (tell (Plain ''NEXT: commit & push, then build ONLY via GitHub Actions'')))))"

subsection \<open>The whole run\<close>

definition run :: "env \<Rightarrow> step" where
  "run E =
     and_then (tell (Plain ''=== ANDROID PRE-PUSH SANITY & CI NORMALIZATION ===''))
       (and_then (step0 E)
          (and_then (step1 E)
             (and_then (step2 E)
                (and_then (step3 E)
                   (and_then (step4 E)
                      (and_then (step5 E)
                         (and_then (step6 E) (step7 E))))))))"

text \<open>The exit status of the process: an exception nobody catches gives 1.\<close>

definition exit_status :: "outcome \<Rightarrow> nat" where
  "exit_status out = (case out of Done \<Rightarrow> 0 | Exited n \<Rightarrow> n | Raised e \<Rightarrow> 1)"

section \<open>What a step leaves as it is\<close>

text \<open>
  A step preserves a property of the file system and of the addresses requested when the
  property, true before the step, is true after it, however the step ends.
\<close>

definition preserves :: "(fs \<Rightarrow> string list \<Rightarrow> bool) \<Rightarrow> step \<Rightarrow> bool" where
  "preserves P s \<longleftrightarrow>
     (\<forall>w. P (files w) (requests w) \<longrightarrow> P (files (snd (s w))) (requests (snd (s w))))"

text \<open>The permission bits of a node.\<close>

definition mode_of :: "node \<Rightarrow> nat" where
  "mode_of n = (case n of File c m \<Rightarrow> m | Dir m \<Rightarrow> m)"

definition content_of :: "node \<Rightarrow> pystr option" where
  "content_of n = (case n of File c m \<Rightarrow> Some c | Dir m \<Rightarrow> None)"

text \<open>A step that leaves with an exit status only with the status 1.\<close>

definition exits_1 :: "step \<Rightarrow> bool" where
  "exits_1 s \<longleftrightarrow> (\<forall>w n. fst (s w) = Exited n \<longrightarrow> n = 1)"

text \<open>The run up to the end of step 5, and up to the end of step 4.\<close>

definition steps_0_to_5 :: "env \<Rightarrow> step" where
  "steps_0_to_5 E =
     and_then (tell (Plain ''=== ANDROID PRE-PUSH SANITY & CI NORMALIZATION ===''))
       (and_then (step0 E)
          (and_then (step1 E)
             (and_then (step2 E)
                (and_then (step3 E)
                   (and_then (step4 E) (step5 E))))))"

definition steps_0_to_4 :: "env \<Rightarrow> step" where
  "steps_0_to_4 E =
     and_then (tell (Plain ''=== ANDROID PRE-PUSH SANITY & CI NORMALIZATION ===''))
       (and_then (step0 E)
          (and_then (step1 E)
             (and_then (step2 E)
                (and_then (step3 E) (step4 E)))))"

text \<open>The run up to the test whether the wrapper jar is there.\<close>

definition steps_before_jar :: "env \<Rightarrow> step" where
  "steps_before_jar E =
     and_then (steps_0_to_4 E)
       (and_then (attempt (\<lambda>t. mkdir_parents t (wrapper_dir E) (new_dir_mode E)))
          (ensure_props E))"

text \<open>The content of the file at a path, when there is a file.\<close>

definition file_content :: "fs \<Rightarrow> path \<Rightarrow> pystr option" where
  "file_content t p = (case lookup t p of Some (File c m) \<Rightarrow> Some c | _ \<Rightarrow> None)"


section \<open>Properties of the table\<close>

lemma setitem_update: "setitem k v d = AList.update k v d"
  by (induction d) auto

lemma keys_setitem:
  "map fst (setitem k v d) = (if k \<in> set (map fst d) then map fst d else map fst d @ [k])"
  by (simp add: setitem_update update_keys)

lemma map_of_setitem: "map_of (setitem k v d) = (map_of d)(k \<mapsto> v)"
  by (simp add: setitem_update update_conv')

lemma distinct_setitem: "distinct (map fst d) \<Longrightarrow> distinct (map fst (setitem k v d))"
  by (simp add: setitem_update distinct_update)



lemma setpairs_simps [simp]:
  "setpairs d [] = d" "setpairs d (p # ps) = setpairs (setitem (fst p) (snd p) d) ps"
  by (simp_all add: setpairs_def split_beta)

lemma setpairs_append: "setpairs d (ps @ qs) = setpairs (setpairs d ps) qs"
  by (simp add: setpairs_def)

lemma foldl_parse_line:
  "foldl parse_line d ls = setpairs d (map line_pair (filter (\<lambda>l. sep \<in> set l) ls))"
  by (induction ls arbitrary: d) (simp_all add: parse_line_def line_pair_def)

lemma enforce_mandatory_setpairs: "enforce_mandatory d = setpairs d mandatory"
  by (simp add: enforce_mandatory_def mandatory_def)

lemma props_table_Some: "props_table (Some c) = setpairs [] (file_pairs c @ mandatory)"
  by (simp add: props_table_def parse_props_def foldl_parse_line file_pairs_def
      enforce_mandatory_setpairs setpairs_append)

lemma props_table_None: "props_table None = setpairs [] mandatory"
  by (simp add: props_table_def enforce_mandatory_setpairs)

lemma keys_setpairs:
  "map fst (setpairs d ps) =
     foldl (\<lambda>acc x. if x \<in> set acc then acc else acc @ [x]) (map fst d) (map fst ps)"
  by (induction ps arbitrary: d) (simp_all add: keys_setitem)

lemma keys_setpairs_empty: "map fst (setpairs [] ps) = first_seen (map fst ps)"
  by (simp add: keys_setpairs first_seen_def)

lemma map_of_setpairs: "map_of (setpairs d ps) = map_of (rev ps @ d)"
proof (induction ps arbitrary: d)
  case Nil
  then show ?case by simp
next
  case (Cons p ps)
  have "map_of (setpairs (setitem (fst p) (snd p) d) ps) = map_of (rev ps @ setitem (fst p) (snd p) d)"
    by (rule Cons.IH)
  also have "\<dots> = map_of (rev ps @ p # d)"
    by (simp add: map_of_append map_of_setitem) 
  finally show ?case by simp
qed

lemma distinct_setpairs: "distinct (map fst d) \<Longrightarrow> distinct (map fst (setpairs d ps))"
  by (induction ps arbitrary: d) (simp_all add: distinct_setitem)

lemma join_lines: "ls \<noteq> [] \<Longrightarrow> join [10] ls @ [10] = concat (map (\<lambda>l. l @ [10]) ls)"
  by (induction "[10::nat]" ls rule: join.induct) simp_all

lemma render_concat:
  "d \<noteq> [] \<Longrightarrow> render d = concat (map (\<lambda>(k, v). k @ [sep] @ v @ [10]) d)"
  by (simp add: render_def join_lines o_def split_def)

lemma setitem_nonempty: "setitem k v d \<noteq> []"
  by (cases d) (auto split: if_splits)

lemma props_table_nonempty: "props_table e \<noteq> []"
  by (simp add: props_table_def enforce_mandatory_def setitem_nonempty)




lemma splitlines_from_Cons:
  "splitlines_from cur (c # cs) =
     (if c = 13 \<and> take 1 cs = [10] then cur # splitlines_from [] (tl cs)
      else if is_linebreak c then cur # splitlines_from [] cs
      else splitlines_from (cur @ [c]) cs)"
  by (cases cs) (auto simp: is_linebreak_def)

lemma universal_newlines_Cons:
  "universal_newlines (c # cs) =
     (if c = 13 \<and> take 1 cs = [10] then 10 # universal_newlines (tl cs)
      else if c = 13 then 10 # universal_newlines cs
      else c # universal_newlines cs)"
  by (cases cs) auto

lemma universal_newlines_id: "13 \<notin> set s \<Longrightarrow> universal_newlines s = s"
  by (induction s) (auto simp: universal_newlines_Cons)

lemma no_break_simps [simp]:
  "no_break []" "no_break (xs @ [c]) \<longleftrightarrow> no_break xs \<and> \<not> is_linebreak c"
  by (auto simp: no_break_def)

lemma splitlines_from_no_break:
  "no_break cur \<Longrightarrow> l \<in> set (splitlines_from cur s) \<Longrightarrow> no_break l"
proof (induction cur s rule: splitlines_from.induct)
  case (1 cur)
  then show ?case by (simp split: if_splits)
next
  case (2 cur c)
  then show ?case by (simp split: if_splits)
next
  case (3 cur c d cs)
  show ?case
  proof (cases "c = 13 \<and> d = 10")
    case True
    with "3.prems" have "l = cur \<or> l \<in> set (splitlines_from [] cs)"
      by (auto split: if_splits)
    with True "3.IH"(1) "3.prems"(1) show ?thesis by auto
  next
    case False
    show ?thesis
    proof (cases "is_linebreak c")
      case True
      with False "3.prems" have "l = cur \<or> l \<in> set (splitlines_from [] (d # cs))"
        by (auto split: if_splits)
      with False True "3.IH"(2) "3.prems"(1) show ?thesis by auto
    next
      case nb: False
      with False "3.prems" have "l \<in> set (splitlines_from (cur @ [c]) (d # cs))"
        by (auto split: if_splits)
      with False nb "3.IH"(3) "3.prems"(1) show ?thesis by simp
    qed
  qed
qed

lemma file_lines_no_break: "l \<in> set (file_lines c) \<Longrightarrow> no_break l"
  unfolding file_lines_def splitlines_def
  by (rule splitlines_from_no_break [of "[]"]) simp_all

lemma splitlines_from_line:
  "no_break l \<Longrightarrow> splitlines_from cur (l @ 10 # rest) = (cur @ l) # splitlines_from [] rest"
proof (induction l arbitrary: cur)
  case Nil
  then show ?case by (simp add: splitlines_from_Cons is_linebreak_def)
next
  case (Cons c l)
  then have c: "\<not> is_linebreak c" and l: "no_break l" by (simp_all add: no_break_def)
  from c have "c \<noteq> 13" by (auto simp: is_linebreak_def)
  with c Cons.IH [OF l, of "cur @ [c]"] show ?case
    by (simp add: splitlines_from_Cons)
qed

lemma splitlines_from_lines:
  "\<forall>l \<in> set ls. no_break l \<Longrightarrow> splitlines_from [] (concat (map (\<lambda>l. l @ [10]) ls)) = ls"
  by (induction ls) (simp_all add: splitlines_from_line)

lemma no_break_no_cr: "no_break l \<Longrightarrow> 13 \<notin> set l"
  by (auto simp: no_break_def is_linebreak_def)

lemma file_lines_lines:
  assumes "\<forall>l \<in> set ls. no_break l"
  shows "file_lines (concat (map (\<lambda>l. l @ [10]) ls)) = ls"
proof -
  have "13 \<notin> set (concat (map (\<lambda>l. l @ [10]) ls))"
    using assms by (auto dest: no_break_no_cr)
  then show ?thesis
    using assms by (simp add: file_lines_def splitlines_def universal_newlines_id splitlines_from_lines)
qed

lemma set_strip: "set (strip s) \<subseteq> set s"
proof -
  have "set (strip s) \<subseteq> set (lstrip s)"
    unfolding strip_def rstrip_def using set_dropWhileD [of _ isspace "rev (lstrip s)"] by auto
  also have "\<dots> \<subseteq> set s"
    unfolding lstrip_def using set_dropWhileD [of _ isspace s] by auto
  finally show ?thesis .
qed

lemma set_before_sep: "set (before_sep l) \<subseteq> set l"
  unfolding before_sep_def using set_takeWhileD [of _ "\<lambda>c. c \<noteq> sep" l] by auto

lemma in_set_tl: "x \<in> set (tl ys) \<Longrightarrow> x \<in> set ys"
  by (cases ys) auto

lemma set_after_sep: "set (after_sep l) \<subseteq> set l"
proof -
  have "set (after_sep l) \<subseteq> set (dropWhile (\<lambda>c. c \<noteq> sep) l)"
    unfolding after_sep_def by (auto dest: in_set_tl)
  also have "\<dots> \<subseteq> set l" using set_dropWhileD [of _ "\<lambda>c. c \<noteq> sep" l] by auto
  finally show ?thesis .
qed

lemma sep_notin_before: "sep \<notin> set (before_sep l)"
  unfolding before_sep_def using set_takeWhileD [of sep "\<lambda>c. c \<noteq> sep" l] by auto

lemma stripped_strip: "stripped (strip s)"
proof (cases "strip s = []")
  case True
  then show ?thesis by (simp add: stripped_def)
next
  case False
  define t where "t = lstrip s"
  from False have ne: "dropWhile isspace (rev t) \<noteq> []"
    by (simp add: strip_def rstrip_def t_def)
  then have l: "\<not> isspace (hd (dropWhile isspace (rev t)))"
    by (rule hd_dropWhile)
  then have last: "\<not> isspace (last (strip s))"
    using ne by (simp add: strip_def rstrip_def t_def [symmetric] last_rev)
  from ne have tne: "t \<noteq> []" by auto
  then have "\<not> isspace (hd t)" unfolding t_def lstrip_def by (rule hd_dropWhile)
  moreover have "hd (strip s) = hd t"
  proof -
    obtain n where "dropWhile isspace (rev t) = drop n (rev t)"
      by (metis dropWhile_eq_drop)
    then have "strip s = take (length t - n) t"
      by (simp add: strip_def rstrip_def t_def [symmetric] rev_drop)
    with False show ?thesis by (cases t) (auto simp: take_Cons' split: if_splits)
  qed
  ultimately show ?thesis using last by (simp add: stripped_def)
qed

lemma strip_stripped: "stripped s \<Longrightarrow> strip s = s"
proof (cases "s = []")
  case True
  then show ?thesis by (simp add: strip_def rstrip_def lstrip_def)
next
  case False
  assume "stripped s"
  with False have h: "\<not> isspace (hd s)" and l: "\<not> isspace (last s)" by (simp_all add: stripped_def)
  from False h have "lstrip s = s" by (cases s) (simp_all add: lstrip_def)
  moreover from False l have "rstrip s = s"
    by (cases s rule: rev_cases) (simp_all add: rstrip_def)
  ultimately show ?thesis by (simp add: strip_def)
qed

lemma before_sep_render: "sep \<notin> set k \<Longrightarrow> before_sep (k @ [sep] @ v) = k"
  unfolding before_sep_def by (induction k) auto

lemma after_sep_render: "sep \<notin> set k \<Longrightarrow> after_sep (k @ [sep] @ v) = v"
  unfolding after_sep_def by (induction k) auto

lemma line_pair_render:
  assumes "sep \<notin> set k" "stripped k" "stripped v"
  shows "line_pair (k @ [sep] @ v) = (k, v)"
proof -
  from assms(1) have "before_sep (k @ [sep] @ v) = k"
    by (rule before_sep_render)
  moreover from assms(1) have "after_sep (k @ [sep] @ v) = v"
    by (rule after_sep_render)
  ultimately show ?thesis using assms by (simp add: line_pair_def strip_stripped)
qed



lemmas text_defs = str_def is_linebreak_def isspace_def splitlines_def lstrip_def rstrip_def strip_def
  sep_def before_sep_def after_sep_def parse_line_def file_lines_def parse_props_def enforce_mandatory_def
  render_def props_table_def enforce_props_def line_pair_def mandatory_def

lemma no_break_subset: "set s \<subseteq> set l \<Longrightarrow> no_break l \<Longrightarrow> no_break s"
  by (auto simp: no_break_def)

lemma clean_line_pair:
  assumes "no_break l"
  shows "clean_pair (line_pair l)"
proof -
  have "set (strip (before_sep l)) \<subseteq> set l"
    using set_strip [of "before_sep l"] set_before_sep [of l] by blast
  then have k: "no_break (strip (before_sep l))" using assms by (rule no_break_subset)
  have "set (strip (after_sep l)) \<subseteq> set l"
    using set_strip [of "after_sep l"] set_after_sep [of l] by blast
  then have v: "no_break (strip (after_sep l))" using assms by (rule no_break_subset)
  have "sep \<notin> set (strip (before_sep l))"
    using set_strip [of "before_sep l"] sep_notin_before [of l] by blast
  with k v show ?thesis by (simp add: clean_pair_def line_pair_def stripped_strip)
qed

lemma clean_mandatory: "\<forall>p \<in> set mandatory. clean_pair p"
  by (simp add: clean_pair_def mandatory_def no_break_def stripped_def str_def sep_def
      is_linebreak_def isspace_def)

lemma clean_file_pairs: "\<forall>p \<in> set (file_pairs c). clean_pair p"
  by (auto simp: file_pairs_def intro: clean_line_pair file_lines_no_break)

lemma set_setitem: "set (setitem k v d) \<subseteq> insert (k, v) (set d)"
  by (induction d) (auto split: if_splits)

lemma set_setpairs: "set (setpairs d ps) \<subseteq> set d \<union> set ps"
proof (induction ps arbitrary: d)
  case Nil
  then show ?case by simp
next
  case (Cons p ps)
  have "set (setpairs (setitem (fst p) (snd p) d) ps) \<subseteq> set (setitem (fst p) (snd p) d) \<union> set ps"
    by (rule Cons.IH)
  with set_setitem [of "fst p" "snd p" d] show ?case by auto
qed

lemma props_table_setpairs:
  "props_table e = setpairs [] ((case e of None \<Rightarrow> [] | Some c \<Rightarrow> file_pairs c) @ mandatory)"
  by (cases e) (simp_all add: props_table_Some props_table_None)

lemma clean_props_table: "p \<in> set (props_table e) \<Longrightarrow> clean_pair p"
  using set_setpairs [of "[]" "(case e of None \<Rightarrow> [] | Some c \<Rightarrow> file_pairs c) @ mandatory"]
    clean_mandatory clean_file_pairs
  by (cases e) (auto simp: props_table_setpairs)

lemma distinct_props_table: "distinct (map fst (props_table e))"
  by (simp add: props_table_setpairs distinct_setpairs)

lemma setitem_fresh: "k \<notin> set (map fst d) \<Longrightarrow> setitem k v d = d @ [(k, v)]"
  by (induction d) auto

lemma setitem_present: "(k, v) \<in> set d \<Longrightarrow> distinct (map fst d) \<Longrightarrow> setitem k v d = d"
  by (induction d) (auto simp: rev_image_eqI)

lemma setpairs_distinct: "distinct (map fst (d @ ps)) \<Longrightarrow> setpairs d ps = d @ ps"
proof (induction ps arbitrary: d)
  case Nil
  then show ?case by simp
next
  case (Cons p ps)
  then have "fst p \<notin> set (map fst d)" by auto
  then have "setitem (fst p) (snd p) d = d @ [p]" by (simp add: setitem_fresh)
  moreover from Cons.prems have "distinct (map fst ((d @ [p]) @ ps))" by simp
  ultimately show ?case using Cons.IH [of "d @ [p]"] by simp
qed

lemma setpairs_present:
  "set ps \<subseteq> set d \<Longrightarrow> distinct (map fst d) \<Longrightarrow> setpairs d ps = d"
  by (induction ps) (simp_all add: setitem_present)

lemma map_of_props_table:
  "map_of (props_table e) =
     map_of (rev ((case e of None \<Rightarrow> [] | Some c \<Rightarrow> file_pairs c) @ mandatory))"
  by (simp add: props_table_setpairs map_of_setpairs)

lemma mandatory_in_table: "set mandatory \<subseteq> set (props_table e)"
proof -
  have "map_of (props_table e) k = Some v" if "(k, v) \<in> set mandatory" for k v
    using that by (auto simp: map_of_props_table map_of_append mandatory_def str_def)
  then show ?thesis by (auto dest: map_of_SomeD)
qed

lemma render_lines:
  "render (props_table e) = concat (map (\<lambda>l. l @ [10]) (map (\<lambda>(k, v). k @ [sep] @ v) (props_table e)))"
  by (simp add: render_concat props_table_nonempty o_def split_def)

lemma file_lines_render:
  "file_lines (render (props_table e)) = map (\<lambda>(k, v). k @ [sep] @ v) (props_table e)"
proof -
  have "no_break (k @ [sep] @ v)" if "(k, v) \<in> set (props_table e)" for k v
    using clean_props_table [OF that]
    by (auto simp: clean_pair_def no_break_def sep_def is_linebreak_def)
  then have "\<forall>l \<in> set (map (\<lambda>(k, v). k @ [sep] @ v) (props_table e)). no_break l"
    by auto
  then show ?thesis unfolding render_lines by (rule file_lines_lines)
qed

lemma file_pairs_render: "file_pairs (render (props_table e)) = props_table e"
proof -
  have "line_pair (k @ [sep] @ v) = (k, v)" if "(k, v) \<in> set (props_table e)" for k v
    using clean_props_table [OF that] line_pair_render [of k v] by (simp add: clean_pair_def)
  then have "map (\<lambda>p. line_pair (fst p @ [sep] @ snd p)) (props_table e) = props_table e"
    by (intro map_idI) auto
  then have "map line_pair (map (\<lambda>(k, v). k @ [sep] @ v) (props_table e)) = props_table e"
    by (simp add: o_def split_def)
  moreover have "filter (\<lambda>l. sep \<in> set l) (map (\<lambda>(k, v). k @ [sep] @ v) (props_table e))
      = map (\<lambda>(k, v). k @ [sep] @ v) (props_table e)"
    by (auto simp: filter_id_conv)
  ultimately show ?thesis by (simp add: file_pairs_def file_lines_render)
qed

lemma props_table_idem: "props_table (Some (enforce_props e)) = props_table e"
proof -
  have "props_table (Some (enforce_props e)) = setpairs (setpairs [] (props_table e)) mandatory"
    by (simp add: props_table_Some enforce_props_def file_pairs_render setpairs_append)
  also have "setpairs [] (props_table e) = props_table e"
    using setpairs_distinct [of "[]" "props_table e"] by (simp add: distinct_props_table)
  also have "setpairs (props_table e) mandatory = props_table e"
    by (rule setpairs_present) (simp_all add: mandatory_in_table distinct_props_table)
  finally show ?thesis .
qed

lemma enforce_props_idem: "enforce_props (Some (enforce_props e)) = enforce_props e"
  by (simp add: enforce_props_def props_table_idem [unfolded enforce_props_def])



lemma foldl_seen_prefix:
  "\<exists>rest. foldl (\<lambda>acc x. if x \<in> set acc then acc else acc @ [x]) acc xs = acc @ rest"
proof (induction xs arbitrary: acc)
  case Nil
  then show ?case by simp
next
  case (Cons x xs)
  show ?case
  proof (cases "x \<in> set acc")
    case True
    with Cons.IH [of acc] show ?thesis by simp
  next
    case False
    from Cons.IH [of "acc @ [x]"] obtain rest where
      "foldl (\<lambda>acc x. if x \<in> set acc then acc else acc @ [x]) (acc @ [x]) xs = (acc @ [x]) @ rest"
      by blast
    with False show ?thesis by simp
  qed
qed

lemma takeWhile_until: "k \<notin> set acc \<Longrightarrow> takeWhile (\<lambda>x. x \<noteq> k) (acc @ k # rest) = acc"
  by (induction acc) auto

lemma foldl_seen_takeWhile:
  "k \<notin> set acc \<Longrightarrow> k \<in> set xs \<Longrightarrow>
   takeWhile (\<lambda>x. x \<noteq> k) (foldl (\<lambda>acc x. if x \<in> set acc then acc else acc @ [x]) acc xs) =
   foldl (\<lambda>acc x. if x \<in> set acc then acc else acc @ [x]) acc (takeWhile (\<lambda>x. x \<noteq> k) xs)"
proof (induction xs arbitrary: acc)
  case Nil
  then show ?case by simp
next
  case (Cons x xs)
  show ?case
  proof (cases "x = k")
    case True
    from foldl_seen_prefix [of "acc @ [k]" xs] obtain rest where
      "foldl (\<lambda>acc x. if x \<in> set acc then acc else acc @ [x]) (acc @ [k]) xs = (acc @ [k]) @ rest"
      by blast
    with True Cons.prems(1) show ?thesis by (simp add: takeWhile_until)
  next
    case False
    with Cons.prems have "k \<in> set xs" by simp
    with False Cons.prems(1) Cons.IH [of acc] Cons.IH [of "acc @ [x]"] show ?thesis by simp
  qed
qed

lemma first_seen_takeWhile:
  "k \<in> set xs \<Longrightarrow>
   takeWhile (\<lambda>x. x \<noteq> k) (first_seen (xs @ ys)) = first_seen (takeWhile (\<lambda>x. x \<noteq> k) xs)"
  unfolding first_seen_def
  using foldl_seen_takeWhile [of k "[]" "xs @ ys"] by (simp add: takeWhile_append1)

lemma distinct_count_list: "distinct xs \<Longrightarrow> x \<in> set xs \<Longrightarrow> count_list xs x = 1"
  by (induction xs) (auto simp: count_list_0_iff)

lemma keys_props_table_Some:
  "map fst (props_table (Some c)) = first_seen (map fst (file_pairs c) @ map fst mandatory)"
  by (simp add: props_table_Some keys_setpairs_empty)

lemma strip_decomp:
  "\<exists>a b. s = a @ strip s @ b \<and> (\<forall>c \<in> set a. isspace c) \<and> (\<forall>c \<in> set b. isspace c)"
proof -
  define a where "a = takeWhile isspace s"
  define t where "t = dropWhile isspace s"
  define b where "b = rev (takeWhile isspace (rev t))"
  have "s = a @ t" by (simp add: a_def t_def)
  moreover have "rev t = takeWhile isspace (rev t) @ dropWhile isspace (rev t)" by simp
  then have "t = strip s @ b"
    unfolding strip_def rstrip_def lstrip_def b_def t_def [symmetric]
    by (metis rev_append rev_rev_ident)
  moreover have "\<forall>c \<in> set a. isspace c" unfolding a_def by (auto dest: set_takeWhileD)
  moreover have "\<forall>c \<in> set b. isspace c" unfolding b_def by (auto dest: set_takeWhileD)
  ultimately show ?thesis by auto
qed


lemma set_keys_setitem: "set (map fst (setitem k v d)) = insert k (set (map fst d))"
  unfolding keys_setitem by auto

lemma set_keys_setpairs: "set (map fst (setpairs d ps)) = set (map fst d) \<union> set (map fst ps)"
proof (induction ps arbitrary: d)
  case Nil
  then show ?case by simp
next
  case (Cons p ps)
  have "set (map fst (setpairs (setitem (fst p) (snd p) d) ps)) =
      set (map fst (setitem (fst p) (snd p) d)) \<union> set (map fst ps)"
    by (rule Cons.IH)
  then show ?case unfolding set_keys_setitem by simp
qed



lemma strip_decomp_list:
  "\<exists>a b. s = a @ strip s @ b \<and> list_all isspace a \<and> list_all isspace b"
  using strip_decomp [of s] by (simp add: list_all_iff)

lemma map_of_rev_mandatory: "map_of (rev mandatory) k = map_of mandatory k"
  by (simp add: mandatory_def str_def)


section \<open>Properties of the file system operations\<close>

lemma lookup_update: "lookup (AList.update p n t) q = (if q = p then Some n else lookup t q)"
  by (simp add: lookup_def update_conv')

lemma lookup_delete: "lookup (AList.delete p t) q = (if q = p then None else lookup t q)"
  by (simp add: lookup_def delete_conv')

lemma lookup_filter:
  "lookup (filter (\<lambda>e. P (fst e)) t) q = (if P q then lookup t q else None)"
  unfolding lookup_def by (induction t) auto

lemma then_fs_None:
  "then_fs r k = (None, t') \<longleftrightarrow> (\<exists>t1. r = (None, t1) \<and> k t1 = (None, t'))"
  by (cases r) (auto simp: then_fs_def split: option.splits)

lemma write_file_other:
  "q \<noteq> p \<Longrightarrow> lookup (snd (write_file t p c m0)) q = lookup t q"
  by (simp add: write_file_def lookup_update split: option.splits node.splits)

lemma write_file_ok:
  "write_file t p c m0 = (None, t') \<Longrightarrow>
     lookup t' p = Some (File c (case lookup t p of Some (File c' m') \<Rightarrow> m' | _ \<Rightarrow> m0))"
  by (auto simp: write_file_def lookup_update split: option.splits node.splits)

lemma mkdir_other: "q \<noteq> p \<Longrightarrow> lookup (snd (mkdir t p m0)) q = lookup t q"
  by (simp add: mkdir_def lookup_update split: option.splits node.splits)

lemma mkdir_exist_ok_other: "q \<noteq> p \<Longrightarrow> lookup (snd (mkdir_exist_ok t p m0)) q = lookup t q"
  using mkdir_other [where q = q and p = p and t = t and ?m0.0 = m0]
  by (cases "mkdir t p m0") (auto simp: mkdir_exist_ok_def split: option.splits)

lemma chmod_other: "q \<noteq> p \<Longrightarrow> lookup (snd (chmod t p m)) q = lookup t q"
  by (simp add: chmod_def lookup_update split: option.splits node.splits)

lemma unlink_other: "q \<noteq> p \<Longrightarrow> lookup (snd (unlink t p)) q = lookup t q"
  by (simp add: unlink_def lookup_delete split: option.splits node.splits)

lemma then_fs_other:
  assumes "lookup (snd r) q = lookup t q"
    and "\<And>t1. lookup (snd (k t1)) q = lookup t1 q"
  shows "lookup (snd (then_fs r k)) q = lookup t q"
  using assms by (cases r) (auto simp: then_fs_def split: option.splits)

lemma copy_other:
  assumes "q \<noteq> dst" "q \<noteq> dst @ [last src]"
  shows "lookup (snd (copy t src dst m0)) q = lookup t q"
proof -
  have "lookup (snd (then_fs (write_file t d c m0) (\<lambda>t1. chmod t1 d m))) q = lookup t q"
    if "q \<noteq> d" for d c m
    using that by (intro then_fs_other write_file_other chmod_other)
  with assms show ?thesis
    by (auto simp: copy_def Let_def split: option.splits node.splits)
qed

lemma mkdir_parents_other:
  "\<not> prefix q p \<Longrightarrow> lookup (snd (mkdir_parents t p m0)) q = lookup t q"
proof (induction t p m0 rule: mkdir_parents.induct)
  case (1 t p m0)
  have qp: "q \<noteq> p" using 1(2) by auto
  obtain r t' where m: "mkdir t p m0 = (r, t')" by (cases "mkdir t p m0")
  have t': "lookup t' q = lookup t q" using mkdir_other [OF qp, of t m0] m by simp
  show ?case
  proof (cases r)
    case None
    then show ?thesis using m t' by (subst mkdir_parents.simps) simp
  next
    case (Some e)
    show ?thesis
    proof (cases "e = FileNotFoundError \<and> p \<noteq> []")
      case True
      have np: "\<not> prefix q (butlast p)"
        using 1(2) True by (metis prefix_order.dual_order.trans prefixeq_butlast)
      have ih: "lookup (snd (mkdir_parents t' (butlast p) m0)) q = lookup t' q"
        using 1(1) m Some True np by simp
      have "lookup (snd (then_fs (mkdir_parents t' (butlast p) m0) (\<lambda>t1. mkdir_exist_ok t1 p m0))) q
            = lookup t' q"
        by (intro then_fs_other ih mkdir_exist_ok_other qp)
      then show ?thesis using m Some True t' by (subst mkdir_parents.simps) simp
    next
      case False
      then show ?thesis using m Some t' by (subst mkdir_parents.simps) auto
    qed
  qed
qed

lemma makedirs_other:
  "\<not> prefix q p \<Longrightarrow> lookup (snd (makedirs t p m0)) q = lookup t q"
proof (induction t p m0 rule: makedirs.induct)
  case (1 t p m0)
  have qp: "q \<noteq> p" using 1(2) by auto
  show ?case
  proof (cases "p \<noteq> [] \<and> \<not> path_exists t (butlast p)")
    case True
    have np: "\<not> prefix q (butlast p)"
      using 1(2) by (metis prefix_order.dual_order.trans prefixeq_butlast)
    have ih: "lookup (snd (makedirs t (butlast p) m0)) q = lookup t q"
      using 1(1) True np by simp
    obtain r t1 where m: "makedirs t (butlast p) m0 = (r, t1)" by (cases "makedirs t (butlast p) m0")
    have "lookup (snd (mkdir t1 p m0)) q = lookup t q"
      using mkdir_other [OF qp, of t1 m0] ih m by simp
    then show ?thesis using True m ih
      by (subst makedirs.simps) (auto split: option.splits)
  next
    case False
    then show ?thesis using mkdir_other [OF qp, of t m0] by (subst makedirs.simps) auto
  qed
qed

lemma extract_member_other:
  assumes "\<not> prefix q (dir @ arcname n)"
  shows "lookup (snd (extract_member t dir n dat fm dm)) q = lookup t q"
proof -
  have 1: "q \<noteq> dir @ arcname n" using assms by auto
  have 2: "\<not> prefix q (butlast (dir @ arcname n))"
    using assms by (metis prefix_order.dual_order.trans prefixeq_butlast)
  show ?thesis
    unfolding extract_member_def Let_def
    by (intro then_fs_other write_file_other 1) (simp add: makedirs_other [OF 2])
qed

subsection \<open>Step 4 on the file system\<close>

lemma is_dirE: "is_dir t p \<Longrightarrow> \<exists>m. lookup t p = Some (Dir m)"
  by (auto simp: is_dir_def split: option.splits node.splits)

lemma step4_File:
  assumes "lookup (files w) (cwd E @ [''gradle.properties'']) = Some (File c m)"
    and "is_dir (files w) (cwd E)"
  shows "step4 E w =
    (Done, w\<lparr>files := AList.update (cwd E @ [''gradle.properties''])
                (File (enforce_props (Some c)) m) (files w),
             printed := printed w @ [Ok ''gradle.properties enforced'']\<rparr>)"
proof -
  from assms(2) obtain m' where "lookup (files w) (cwd E) = Some (Dir m')"
    by (auto dest: is_dirE)
  with assms(1) show ?thesis
    by (simp add: step4_def Let_def and_then_def write_text_def attempt_def write_file_def
        tell_def say_def)
qed

lemma step4_None:
  assumes "lookup (files w) (cwd E @ [''gradle.properties'']) = None"
    and "is_dir (files w) (cwd E)"
  shows "step4 E w =
    (Done, w\<lparr>files := AList.update (cwd E @ [''gradle.properties''])
                (File (enforce_props None) (new_file_mode E)) (files w),
             printed := printed w @ [Ok ''gradle.properties enforced'']\<rparr>)"
proof -
  from assms(2) obtain m' where "lookup (files w) (cwd E) = Some (Dir m')"
    by (auto dest: is_dirE)
  with assms(1) show ?thesis
    by (simp add: step4_def Let_def and_then_def write_text_def attempt_def write_file_def
        tell_def say_def)
qed

lemma and_then_Done: "s1 w = (Done, w1) \<Longrightarrow> and_then s1 s2 w = s2 w1"
  by (simp add: and_then_def)

lemma and_then_stop: "s1 w = (out, w1) \<Longrightarrow> out \<noteq> Done \<Longrightarrow> and_then s1 s2 w = (out, w1)"
  by (cases out) (simp_all add: and_then_def)

lemma and_then_tell: "and_then (tell m) s w = s (say m w)"
  by (simp add: and_then_def tell_def)

lemma check_required_missing:
  "check_required E rs w =
     (case filter (\<lambda>r. \<not> path_exists (files w) (cwd E @ [r])) rs of
        [] \<Rightarrow> (Done, w)
      | r # rs' \<Rightarrow> die (''Missing required project item: '' @ r) w)"
  by (induction rs) simp_all

subsection \<open>Renaming and removing\<close>

lemma lookup_append:
  "lookup (xs @ ys) q = (case lookup xs q of None \<Rightarrow> lookup ys q | Some v \<Rightarrow> Some v)"
  by (simp add: lookup_def map_add_def split: option.splits)

lemma lookup_None_iff: "lookup t q = None \<longleftrightarrow> q \<notin> fst ` set t"
  by (simp add: lookup_def map_of_eq_None_iff)

lemma lookup_move_tree:
  assumes "\<not> prefix src q" "\<not> prefix dst q"
  shows "lookup (move_tree t src dst) q = lookup t q"
proof -
  have 1: "lookup (filter (\<lambda>e. \<not> prefix src (fst e) \<and> \<not> prefix dst (fst e)) t) q = lookup t q"
    using assms lookup_filter [of "\<lambda>p. \<not> prefix src p \<and> \<not> prefix dst p" t q] by simp
  have 2: "lookup (map (\<lambda>e. (dst @ drop (length src) (fst e), snd e))
       (filter (\<lambda>e. prefix src (fst e)) (AList.clearjunk t))) q = None"
    using assms(2) by (auto simp: lookup_None_iff)
  show ?thesis
    unfolding move_tree_def lookup_append 1 2 by (simp split: option.splits)
qed

lemma rename_other:
  assumes "q \<noteq> src" "\<not> prefix dst q" "prefix src q \<longrightarrow> prefix src dst"
  shows "lookup (snd (rename t src dst)) q = lookup t q"
proof -
  have dq: "q \<noteq> dst" using assms(2) by auto
  have mv: "lookup (move_tree t src dst) q = lookup t q" if "\<not> prefix src dst"
    using that assms by (intro lookup_move_tree) auto
  show ?thesis
    using assms(1) dq mv
    by (auto simp: rename_def lookup_update lookup_delete split: option.splits node.splits)
qed

lemma resolve_last:
  "resolve t start parts = Inr p \<Longrightarrow> parts \<noteq> [] \<Longrightarrow> last parts \<noteq> ''..'' \<Longrightarrow>
     p \<noteq> [] \<and> last p = last parts"
proof (induction parts arbitrary: start)
  case Nil
  then show ?case by simp
next
  case (Cons c cs)
  show ?case
  proof (cases cs)
    case Nil
    with Cons.prems show ?thesis
      by (auto split: option.splits node.splits if_splits)
  next
    case (Cons d ds)
    with Cons.prems Cons.IH show ?thesis
      by (auto split: option.splits node.splits if_splits)
  qed
qed

lemma resolve_one:
  "resolve t start [c] = Inr d \<Longrightarrow> d = (if c = ''..'' then butlast start else start @ [c])"
  by (auto split: option.splits node.splits if_splits)

lemma rmtree_other:
  assumes "length parts \<le> 1" "\<not> prefix (butlast start) q"
  shows "lookup (rmtree_ignore_errors t start parts) q = lookup t q"
proof (cases "resolve t start parts")
  case (Inl e)
  then show ?thesis by (simp add: rmtree_ignore_errors_def)
next
  case (Inr d)
  have "d = start \<or> d = butlast start \<or> (\<exists>c. d = start @ [c])"
  proof (cases parts)
    case Nil
    with Inr show ?thesis by simp
  next
    case (Cons c cs)
    with assms(1) have "parts = [c]" by simp
    with Inr resolve_one [of t start c d] show ?thesis by auto
  qed
  then have "prefix (butlast start) d"
    by (auto simp: prefixeq_butlast intro: prefix_order.trans [OF prefixeq_butlast])
  with assms(2) have nd: "\<not> prefix d q"
    using prefix_order.trans by blast
  then have nb: "\<not> below d q" by (auto simp: below_def strict_prefix_def)
  show ?thesis
    using Inr nd nb
      lookup_filter [of "\<lambda>p. \<not> below d p" t q] lookup_filter [of "\<lambda>p. \<not> prefix d p" t q]
    by (simp add: rmtree_ignore_errors_def)
qed

subsection \<open>Names\<close>

lemma split_on_nonempty [simp]: "split_on c s \<noteq> []"
  by (induction s) (auto split: list.splits)

lemma split_on_no_sep: "c \<notin> set s \<Longrightarrow> split_on c s = [s]"
  by (induction s) auto

lemma hd_split_on_no_sep: "c \<notin> set (hd (split_on c s))"
  by (induction s) (auto split: list.splits)

lemma split_on_append:
  "c \<notin> set s \<Longrightarrow>
     split_on c (zs @ s) = butlast (split_on c zs) @ [last (split_on c zs) @ s]"
proof (induction zs)
  case Nil
  then show ?case by (simp add: split_on_no_sep)
next
  case (Cons z zs)
  then show ?case by (auto split: list.splits)
qed

lemma endswith_append: "endswith n s \<longleftrightarrow> (\<exists>zs. n = zs @ s)"
proof
  assume "endswith n s"
  then have "n = take (length n - length s) n @ s"
    by (metis append_take_drop_id endswith_def)
  then show "\<exists>zs. n = zs @ s" ..
next
  assume "\<exists>zs. n = zs @ s"
  then show "endswith n s" by (auto simp: endswith_def)
qed

lemma last_filter: "xs \<noteq> [] \<Longrightarrow> P (last xs) \<Longrightarrow> filter P xs \<noteq> [] \<and> last (filter P xs) = last xs"
  by (induction xs) (auto split: if_splits)

lemma components_last:
  assumes "endswith n s" "CHR ''/'' \<notin> set s" "s \<noteq> []" "s \<noteq> ''.''" "length s \<noteq> 1"
  shows "components n \<noteq> [] \<and> endswith (last (components n)) s"
proof -
  from assms(1) obtain zs where n: "n = zs @ s" by (auto simp: endswith_append)
  let ?l = "last (split_on CHR ''/'' zs) @ s"
  have sp: "split_on CHR ''/'' n = butlast (split_on CHR ''/'' zs) @ [?l]"
    unfolding n by (rule split_on_append [OF assms(2)])
  have l: "last (split_on CHR ''/'' n) = ?l" unfolding sp by simp
  have "?l \<noteq> [] \<and> ?l \<noteq> ''.''"
    using assms(3,5) by (cases s) (auto simp: append_eq_Cons_conv)
  then have "filter (\<lambda>x. x \<noteq> [] \<and> x \<noteq> ''.'') (split_on CHR ''/'' n) \<noteq> [] \<and>
      last (filter (\<lambda>x. x \<noteq> [] \<and> x \<noteq> ''.'') (split_on CHR ''/'' n)) = last (split_on CHR ''/'' n)"
    by (intro last_filter) (simp_all add: l)
  then show ?thesis
    by (auto simp: components_def l endswith_append)
qed

lemma components_one: "CHR ''/'' \<notin> set s \<Longrightarrow> length (components s) \<le> 1"
  by (simp add: components_def split_on_no_sep)

subsection \<open>What the steps preserve\<close>

lemma preservesD:
  "preserves P s \<Longrightarrow> P (files w) (requests w) \<Longrightarrow> P (files (snd (s w))) (requests (snd (s w)))"
  by (simp add: preserves_def)

lemma preserves_tell [simp]: "preserves P (tell m)"
  by (simp add: preserves_def tell_def say_def)

lemma preserves_die [simp]: "preserves P (die m)"
  by (simp add: preserves_def die_def say_def)

lemma preserves_and_then:
  assumes "preserves P s1" "preserves P s2"
  shows "preserves P (and_then s1 s2)"
  unfolding preserves_def
proof (intro allI impI)
  fix w :: world assume p: "P (files w) (requests w)"
  obtain out w1 where s1: "s1 w = (out, w1)" by (cases "s1 w")
  have p1: "P (files w1) (requests w1)" using preservesD [OF assms(1) p] s1 by simp
  show "P (files (snd (and_then s1 s2 w))) (requests (snd (and_then s1 s2 w)))"
  proof (cases out)
    case Done
    then show ?thesis using s1 preservesD [OF assms(2) p1] by (simp add: and_then_def)
  next
    case (Exited n)
    then show ?thesis using s1 p1 by (simp add: and_then_def)
  next
    case (Raised e)
    then show ?thesis using s1 p1 by (simp add: and_then_def)
  qed
qed

lemma preserves_attempt:
  assumes "\<And>t r. P t r \<Longrightarrow> P (snd (f t)) r"
  shows "preserves P (attempt f)"
  unfolding preserves_def
proof (intro allI impI)
  fix w :: world assume "P (files w) (requests w)"
  from assms [OF this] show "P (files (snd (attempt f w))) (requests (snd (attempt f w)))"
    by (cases "f (files w)") (auto simp: attempt_def split: option.splits)
qed

lemma preserves_cases:
  assumes "\<And>w. P (files w) (requests w) \<Longrightarrow> P (files (snd (s w))) (requests (snd (s w)))"
  shows "preserves P s"
  using assms by (simp add: preserves_def)

text \<open>The property that a path has a given entry or none, whatever was requested.\<close>

lemma preserves_write_text:
  "q \<noteq> p \<Longrightarrow> preserves (\<lambda>t r. lookup t q = v \<and> Q r) (write_text E p c)"
  unfolding write_text_def by (rule preserves_attempt) (simp add: write_file_other)

lemma preserves_check_required: "preserves P (check_required E rs)"
proof (rule preserves_cases)
  fix w :: world assume "P (files w) (requests w)"
  then show "P (files (snd (check_required E rs w))) (requests (snd (check_required E rs w)))"
    by (induction rs) (simp_all add: die_def say_def)
qed

lemma preserves_step0: "preserves P (step0 E)"
  unfolding step0_def by (intro preserves_and_then preserves_check_required preserves_tell)

lemma preserves_backup_files:
  assumes "\<not> prefix (BACKUP_DIR E) q"
  shows "preserves (\<lambda>t r. lookup t q = v \<and> Q r) (backup_files E ts fs)"
proof (induction fs)
  case Nil
  show ?case by (simp add: preserves_def)
next
  case (Cons f fs)
  let ?d = "BACKUP_DIR E @ [backup_name f ts]"
  have 1: "q \<noteq> ?d" using assms by auto
  have 2: "q \<noteq> ?d @ [last (cwd E @ [f])]" using assms by (auto simp: prefix_def)
  have c: "preserves (\<lambda>t r. lookup t q = v \<and> Q r)
      (attempt (\<lambda>t. copy t (cwd E @ [f]) ?d (new_file_mode E)))"
    by (rule preserves_attempt) (simp add: copy_other [OF 1 2])
  have a: "preserves (\<lambda>t r. lookup t q = v \<and> Q r)
     (and_then (attempt (\<lambda>t. copy t (cwd E @ [f]) ?d (new_file_mode E))) (backup_files E ts fs))"
    by (intro preserves_and_then c Cons.IH)
  show ?case
    by (rule preserves_cases) (use preservesD [OF a] preservesD [OF Cons.IH] in auto)
qed

lemma preserves_step1:
  assumes "\<not> prefix (BACKUP_DIR E) q"
  shows "preserves (\<lambda>t r. lookup t q = v \<and> Q r) (step1 E)"
proof -
  have 1: "q \<noteq> BACKUP_DIR E" using assms by auto
  have m: "preserves (\<lambda>t r. lookup t q = v \<and> Q r)
      (attempt (\<lambda>t. mkdir t (BACKUP_DIR E) (new_dir_mode E)))"
    by (rule preserves_attempt) (simp add: mkdir_other [OF 1])
  have a: "preserves (\<lambda>t r. lookup t q = v \<and> Q r)
      (and_then (attempt (\<lambda>t. mkdir t (BACKUP_DIR E) (new_dir_mode E)))
        (and_then (backup_files E (strftime (now E)) backed_up)
           (tell (Ok ''Original files backed up''))))"
    by (intro preserves_and_then m preserves_backup_files [OF assms] preserves_tell)
  show ?thesis
    by (rule preserves_cases)
      (use preservesD [OF a] in \<open>auto simp: step1_def tell_def say_def\<close>)
qed

lemma preserves_step2:
  "q \<noteq> cwd E @ [''settings.gradle''] \<Longrightarrow> preserves (\<lambda>t r. lookup t q = v \<and> Q r) (step2 E)"
  unfolding step2_def by (intro preserves_and_then preserves_write_text preserves_tell)

lemma preserves_step3:
  "q \<noteq> cwd E @ [''build.gradle''] \<Longrightarrow> preserves (\<lambda>t r. lookup t q = v \<and> Q r) (step3 E)"
  unfolding step3_def by (intro preserves_and_then preserves_write_text preserves_tell)

lemma preserves_step4:
  assumes "q \<noteq> cwd E @ [''gradle.properties'']"
  shows "preserves (\<lambda>t r. lookup t q = v \<and> Q r) (step4 E)"
proof -
  have a: "preserves (\<lambda>t r. lookup t q = v \<and> Q r)
      (and_then (write_text E (cwd E @ [''gradle.properties'']) c)
         (tell (Ok ''gradle.properties enforced'')))" for c
    by (intro preserves_and_then preserves_write_text assms preserves_tell)
  show ?thesis
    by (rule preserves_cases)
      (use preservesD [OF a] in \<open>auto simp: step4_def Let_def split: option.splits node.splits\<close>)
qed

lemma preserves_step6:
  assumes "q \<noteq> gradlew E"
  shows "preserves (\<lambda>t r. lookup t q = v \<and> Q r) (step6 E)"
proof -
  have a: "preserves (\<lambda>t r. lookup t q = v \<and> Q r)
      (and_then (attempt (\<lambda>t. chmod t (gradlew E) 493)) (tell (Ok ''gradlew executable'')))"
    by (intro preserves_and_then preserves_attempt preserves_tell) (simp add: chmod_other [OF assms])
  show ?thesis
    by (rule preserves_cases)
      (use preservesD [OF a] in \<open>auto simp: step6_def die_def say_def\<close>)
qed

lemma preserves_step7: "preserves P (step7 E)"
  unfolding step7_def by (intro preserves_and_then preserves_tell)

lemma preserves_mkdir_wrapper:
  assumes "\<not> prefix q (wrapper_dir E)"
  shows "preserves (\<lambda>t r. lookup t q = v \<and> Q r)
     (attempt (\<lambda>t. mkdir_parents t (wrapper_dir E) (new_dir_mode E)))"
  by (rule preserves_attempt) (simp add: mkdir_parents_other [OF assms])

lemma preserves_ensure_props:
  assumes "q \<noteq> wrapper_props E"
  shows "preserves (\<lambda>t r. lookup t q = v \<and> Q r) (ensure_props E)"
  by (rule preserves_cases)
    (use preservesD [OF preserves_write_text [OF assms]] in \<open>auto simp: ensure_props_def\<close>)

subsection \<open>What the wrapper step preserves\<close>

lemma preserves_urlretrieve:
  assumes "q \<noteq> zip_path E"
  shows "preserves (\<lambda>t r. lookup t q = v) (urlretrieve E)"
proof (rule preserves_cases)
  fix w :: world
  assume p: "lookup (files w) q = v"
  let ?w1 = "w\<lparr>requests := requests w @ [url]\<rparr>"
  have p1: "lookup (files ?w1) q = v" using p by simp
  have a: "preserves (\<lambda>t r. lookup t q = v)
      (attempt (\<lambda>t. write_file t (zip_path E) b (new_file_mode E)))" for b
    by (rule preserves_attempt) (simp add: write_file_other [OF assms])
  have b: "preserves (\<lambda>t r. lookup t q = v)
      (and_then (attempt (\<lambda>t. write_file t (zip_path E) b (new_file_mode E)))
         (\<lambda>w2. (Raised ContentTooShortError, w2)))" for b
    by (intro preserves_and_then a) (simp add: preserves_def)
  show "lookup (files (snd (urlretrieve E w))) q = v"
    using preservesD [OF a p1] preservesD [OF b p1] p
    by (cases "fetch E") (simp_all add: urlretrieve_def Let_def)
qed

lemma jar_name_facts:
  assumes "endswith n ''gradle-wrapper.jar''"
  shows "components n \<noteq> []" "endswith (last (components n)) ''gradle-wrapper.jar''"
    "last (components n) \<noteq> ''..''"
proof -
  have c: "components n \<noteq> [] \<and> endswith (last (components n)) ''gradle-wrapper.jar''"
    by (rule components_last [OF assms]) simp_all
  then show "components n \<noteq> []" "endswith (last (components n)) ''gradle-wrapper.jar''"
    by simp_all
  from c show "last (components n) \<noteq> ''..''"
    by (auto simp: endswith_def)
qed

lemma prefix_root_file:
  "prefix p (c @ [f]) \<Longrightarrow> p \<noteq> c @ [f] \<Longrightarrow> prefix p c"
  by (metis prefix_snoc)

lemma joinpath_relative: "CHR ''/'' \<notin> set s \<Longrightarrow> joinpath b s = (b, components s)"
  by (cases s) (auto simp: joinpath_def)

lemma preserves_install_jar:
  assumes q: "q = cwd E @ [f]" and f: "f \<noteq> ''gradle''" "\<not> endswith f ''gradle-wrapper.jar''"
  shows "preserves (\<lambda>t r. lookup t q = v) (install_jar E z)"
proof (cases "filter (\<lambda>n. endswith n ''gradle-wrapper.jar'') (namelist z) = []")
  case True
  then show ?thesis
    by (intro preserves_cases) (simp add: install_jar_def die_def say_def)
next
  case False
  let ?n = "hd (filter (\<lambda>n. endswith n ''gradle-wrapper.jar'') (namelist z))"
  have "?n \<in> set (filter (\<lambda>n. endswith n ''gradle-wrapper.jar'') (namelist z))"
    using False by (rule hd_in_set)
  then have n: "endswith ?n ''gradle-wrapper.jar''" by simp
  note nf = jar_name_facts [OF n]
  have ex: "preserves (\<lambda>t r. lookup t q = v)
      (attempt (\<lambda>t. extract_member t (wrapper_dir E) ?n dat (new_file_mode E) (new_dir_mode E)))"
    for dat
  proof (rule preserves_attempt)
    have "\<not> prefix q (wrapper_dir E @ arcname ?n)"
      using f(1) by (simp add: q wrapper_dir_def)
    then show "lookup t q = v \<Longrightarrow>
        lookup (snd (extract_member t (wrapper_dir E) ?n dat (new_file_mode E) (new_dir_mode E))) q = v"
      for t and r :: "string list"
      by (simp add: extract_member_other)
  qed
  have rn: "preserves (\<lambda>t r. lookup t q = v)
      (attempt (\<lambda>t. case joinpath (wrapper_dir E) ?n of (start, parts) \<Rightarrow>
                      (case resolve t start parts of
                         Inl e \<Rightarrow> (Some e, t)
                       | Inr extracted \<Rightarrow> rename t extracted (wrapper_jar E))))"
  proof (rule preserves_attempt)
    fix t and r :: "string list"
    assume p: "lookup t q = v"
    have "\<exists>start. joinpath (wrapper_dir E) ?n = (start, components ?n)"
      by (simp add: joinpath_def)
    then obtain start where j: "joinpath (wrapper_dir E) ?n = (start, components ?n)" ..
    show "lookup (snd (case joinpath (wrapper_dir E) ?n of (start, parts) \<Rightarrow>
                      (case resolve t start parts of
                         Inl e \<Rightarrow> (Some e, t)
                       | Inr extracted \<Rightarrow> rename t extracted (wrapper_jar E)))) q = v"
    proof (cases "resolve t start (components ?n)")
      case (Inl e)
      then show ?thesis using j p by simp
    next
      case (Inr src)
      from resolve_last [OF Inr nf(1) nf(3)]
      have l: "src \<noteq> [] \<and> last src = last (components ?n)" .
      have 1: "q \<noteq> src" using l nf(2) f(2) by (auto simp: q)
      have 2: "\<not> prefix (wrapper_jar E) q"
        by (simp add: q wrapper_jar_def wrapper_dir_def)
      have 3: "prefix src q \<longrightarrow> prefix src (wrapper_jar E)"
      proof
        assume "prefix src q"
        with 1 have "prefix src (cwd E)" unfolding q by (metis prefix_root_file)
        then show "prefix src (wrapper_jar E)"
          by (simp add: wrapper_jar_def wrapper_dir_def prefix_prefix)
      qed
      show ?thesis using j Inr p rename_other [OF 1 2 3] by simp
    qed
  qed
  have rm: "preserves (\<lambda>t r. lookup t q = v)
      (\<lambda>w2. (Done, w2\<lparr>files :=
         (case joinpath (wrapper_dir E) (hd (split_on CHR ''/'' ?n)) of
            (start, parts) \<Rightarrow> rmtree_ignore_errors (files w2) start parts)\<rparr>))"
  proof (rule preserves_cases)
    fix w :: world
    assume p: "lookup (files w) q = v"
    let ?first = "hd (split_on CHR ''/'' ?n)"
    have ns: "CHR ''/'' \<notin> set ?first" by (rule hd_split_on_no_sep)
    then have j: "joinpath (wrapper_dir E) ?first = (wrapper_dir E, components ?first)"
      by (rule joinpath_relative)
    have "\<not> prefix (butlast (wrapper_dir E)) q"
      using f(1) by (simp add: q wrapper_dir_def butlast_append)
    from rmtree_other [OF components_one [OF ns] this]
    show "lookup (files (snd (Done, w\<lparr>files :=
         (case joinpath (wrapper_dir E) ?first of
            (start, parts) \<Rightarrow> rmtree_ignore_errors (files w) start parts)\<rparr>))) q = v"
      using p by (simp add: j)
  qed
  have all: "preserves (\<lambda>t r. lookup t q = v)
     (and_then
        (attempt (\<lambda>t. extract_member t (wrapper_dir E) ?n dat (new_file_mode E) (new_dir_mode E)))
        (and_then
           (attempt (\<lambda>t. case joinpath (wrapper_dir E) ?n of (start, parts) \<Rightarrow>
                      (case resolve t start parts of
                         Inl e \<Rightarrow> (Some e, t)
                       | Inr extracted \<Rightarrow> rename t extracted (wrapper_jar E))))
           (\<lambda>w2. (Done, w2\<lparr>files :=
              (case joinpath (wrapper_dir E) (hd (split_on CHR ''/'' ?n)) of
                 (start, parts) \<Rightarrow> rmtree_ignore_errors (files w2) start parts)\<rparr>))))" for dat
    by (intro preserves_and_then ex rn rm)
  show ?thesis
  proof (rule preserves_cases)
    fix w :: world
    assume p: "lookup (files w) q = v"
    show "lookup (files (snd (install_jar E z w))) q = v"
    proof (cases "getinfo z ?n")
      case None
      then show ?thesis using False p by (simp add: install_jar_def Let_def)
    next
      case (Some dat)
      then show ?thesis
        using False preservesD [OF all [of dat], of w] p
        by (simp add: install_jar_def Let_def)
    qed
  qed
qed

lemma preserves_open_zip:
  assumes "q = cwd E @ [f]" "f \<noteq> ''gradle''" "\<not> endswith f ''gradle-wrapper.jar''"
  shows "preserves (\<lambda>t r. lookup t q = v) (open_zip E)"
proof (rule preserves_cases)
  fix w :: world
  assume p: "lookup (files w) q = v"
  show "lookup (files (snd (open_zip E w))) q = v"
    using p preservesD [OF preserves_install_jar [OF assms], of w]
    by (auto simp: open_zip_def split: option.splits node.splits)
qed

lemma preserves_ensure_jar:
  assumes "q = cwd E @ [f]" "f \<noteq> ''gradle''" "\<not> endswith f ''gradle-wrapper.jar''"
    and "f \<noteq> ''gradle-8.2.1.zip''"
  shows "preserves (\<lambda>t r. lookup t q = v) (ensure_jar E)"
proof -
  have z: "q \<noteq> zip_path E"
    using assms(4) by (simp add: assms(1) zip_path_def GRADLE_VERSION_def)
  have u: "preserves (\<lambda>t r. lookup t q = v) (attempt (\<lambda>t. unlink t (zip_path E)))"
    by (rule preserves_attempt) (simp add: unlink_other [OF z])
  have a: "preserves (\<lambda>t r. lookup t q = v)
     (and_then (tell (Info (''Downloading Gradle '' @ GRADLE_VERSION @ '' wrapper'')))
             (and_then (urlretrieve E)
                (and_then (open_zip E)
                   (and_then (attempt (\<lambda>t. unlink t (zip_path E)))
                      (tell (Ok ''gradle-wrapper.jar installed''))))))"
    by (intro preserves_and_then preserves_tell preserves_urlretrieve [OF z]
        preserves_open_zip [OF assms(1-3)] u)
  show ?thesis
    by (rule preserves_cases)
      (use preservesD [OF a] in \<open>auto simp: ensure_jar_def tell_def say_def\<close>)
qed

lemma preserves_step5:
  assumes "q = cwd E @ [f]" "f \<noteq> ''gradle''" "\<not> endswith f ''gradle-wrapper.jar''"
    and "f \<noteq> ''gradle-8.2.1.zip''"
  shows "preserves (\<lambda>t r. lookup t q = v) (step5 E)"
proof -
  have 1: "\<not> prefix q (wrapper_dir E)"
    using assms(2) by (simp add: assms(1) wrapper_dir_def)
  have 2: "q \<noteq> wrapper_props E"
    by (simp add: assms(1) wrapper_props_def wrapper_dir_def)
  have m: "preserves (\<lambda>t r. lookup t q = v \<and> True)
     (attempt (\<lambda>t. mkdir_parents t (wrapper_dir E) (new_dir_mode E)))"
    by (rule preserves_mkdir_wrapper [OF 1])
  have p: "preserves (\<lambda>t r. lookup t q = v \<and> True) (ensure_props E)"
    by (rule preserves_ensure_props [OF 2])
  show ?thesis
    unfolding step5_def
    using m p by (intro preserves_and_then preserves_ensure_jar [OF assms]) simp_all
qed

subsection \<open>Exit statuses\<close>

lemma exits_1_tell [simp]: "exits_1 (tell m)"
  by (simp add: exits_1_def tell_def)

lemma exits_1_die [simp]: "exits_1 (die m)"
  by (simp add: exits_1_def die_def)

lemma exits_1_attempt [simp]: "exits_1 (attempt f)"
  unfolding exits_1_def
proof (intro allI impI)
  fix w :: world and n
  assume "fst (attempt f w) = Exited n"
  then show "n = 1"
    by (cases "f (files w)") (auto simp: attempt_def split: option.splits)
qed

lemma exits_1_and_then:
  assumes "exits_1 s1" "exits_1 s2"
  shows "exits_1 (and_then s1 s2)"
  unfolding exits_1_def
proof (intro allI impI)
  fix w :: world and n
  assume a: "fst (and_then s1 s2 w) = Exited n"
  obtain out w1 where s1: "s1 w = (out, w1)" by (cases "s1 w")
  show "n = 1"
  proof (cases out)
    case Done
    then have "fst (s2 w1) = Exited n" using a s1 by (simp add: and_then_def)
    with assms(2) show ?thesis by (auto simp: exits_1_def)
  next
    case (Exited k)
    then have "fst (s1 w) = Exited n" using a s1 by (simp add: and_then_def)
    with assms(1) show ?thesis by (auto simp: exits_1_def)
  next
    case (Raised e)
    then show ?thesis using a s1 by (simp add: and_then_def)
  qed
qed

lemma exits_1_cases:
  assumes "\<And>w n. fst (s w) = Exited n \<Longrightarrow> n = 1"
  shows "exits_1 s"
  using assms by (auto simp: exits_1_def)

lemma exits_1D: "exits_1 s \<Longrightarrow> fst (s w) = Exited n \<Longrightarrow> n = 1"
  by (auto simp: exits_1_def)

lemma exits_1_check_required: "exits_1 (check_required E rs)"
proof (rule exits_1_cases)
  fix w :: world and n
  show "fst (check_required E rs w) = Exited n \<Longrightarrow> n = 1"
    by (induction rs) (auto simp: die_def split: if_splits)
qed

lemma exits_1_step0: "exits_1 (step0 E)"
  unfolding step0_def by (intro exits_1_and_then exits_1_check_required exits_1_tell)

lemma exits_1_backup_files: "exits_1 (backup_files E ts fs)"
proof (induction fs)
  case Nil
  show ?case by (simp add: exits_1_def)
next
  case (Cons f fs)
  have a: "exits_1 (and_then
             (attempt (\<lambda>t. copy t (cwd E @ [f]) (BACKUP_DIR E @ [backup_name f ts])
                (new_file_mode E)))
             (backup_files E ts fs))"
    by (intro exits_1_and_then exits_1_attempt Cons.IH)
  show ?case
    by (rule exits_1_cases) (use exits_1D [OF a] exits_1D [OF Cons.IH] in \<open>auto split: if_splits\<close>)
qed

lemma exits_1_step1: "exits_1 (step1 E)"
proof -
  have a: "exits_1 (and_then (attempt (\<lambda>t. mkdir t (BACKUP_DIR E) (new_dir_mode E)))
             (and_then (backup_files E (strftime (now E)) backed_up)
                (tell (Ok ''Original files backed up''))))"
    by (intro exits_1_and_then exits_1_attempt exits_1_backup_files exits_1_tell)
  show ?thesis
    by (rule exits_1_cases)
      (use exits_1D [OF a] in \<open>auto simp: step1_def tell_def split: if_splits\<close>)
qed

lemma exits_1_write_text [simp]: "exits_1 (write_text E p c)"
  by (simp add: write_text_def)

lemma exits_1_step2: "exits_1 (step2 E)"
  unfolding step2_def by (intro exits_1_and_then exits_1_write_text exits_1_tell)

lemma exits_1_step3: "exits_1 (step3 E)"
  unfolding step3_def by (intro exits_1_and_then exits_1_write_text exits_1_tell)

lemma exits_1_step4: "exits_1 (step4 E)"
proof -
  have a: "exits_1 (and_then (write_text E p c) (tell m))" for p c m
    by (intro exits_1_and_then exits_1_write_text exits_1_tell)
  show ?thesis
    by (rule exits_1_cases)
      (use exits_1D [OF a] in \<open>auto simp: step4_def Let_def split: option.splits node.splits\<close>)
qed

lemma exits_1_urlretrieve: "exits_1 (urlretrieve E)"
proof -
  have a: "exits_1 (and_then (attempt f) (\<lambda>w2. (Raised ContentTooShortError, w2)))" for f
    by (intro exits_1_and_then exits_1_attempt) (simp add: exits_1_def)
  show ?thesis
    by (rule exits_1_cases)
      (use exits_1D [OF a] exits_1D [OF exits_1_attempt] in
        \<open>auto simp: urlretrieve_def Let_def split: download.splits\<close>)
qed

lemma exits_1_install_jar: "exits_1 (install_jar E z)"
proof -
  have a: "exits_1 (and_then (attempt f) (and_then (attempt g) (\<lambda>w2. (Done, h w2))))" for f g h
    by (intro exits_1_and_then exits_1_attempt) (simp add: exits_1_def)
  show ?thesis
    by (rule exits_1_cases)
      (use exits_1D [OF a] in
        \<open>auto simp: install_jar_def Let_def die_def split: option.splits if_splits\<close>)
qed

lemma exits_1_open_zip: "exits_1 (open_zip E)"
  by (rule exits_1_cases)
    (use exits_1D [OF exits_1_install_jar] in
      \<open>auto simp: open_zip_def split: option.splits node.splits\<close>)

lemma exits_1_ensure_jar: "exits_1 (ensure_jar E)"
proof -
  have a: "exits_1 (and_then (tell (Info (''Downloading Gradle '' @ GRADLE_VERSION @ '' wrapper'')))
             (and_then (urlretrieve E)
                (and_then (open_zip E)
                   (and_then (attempt (\<lambda>t. unlink t (zip_path E)))
                      (tell (Ok ''gradle-wrapper.jar installed''))))))"
    by (intro exits_1_and_then exits_1_tell exits_1_urlretrieve exits_1_open_zip exits_1_attempt)
  show ?thesis
    by (rule exits_1_cases)
      (use exits_1D [OF a] in \<open>auto simp: ensure_jar_def tell_def split: if_splits\<close>)
qed

lemma exits_1_ensure_props: "exits_1 (ensure_props E)"
  by (rule exits_1_cases)
    (use exits_1D [OF exits_1_write_text] in \<open>auto simp: ensure_props_def split: if_splits\<close>)

lemma exits_1_step5: "exits_1 (step5 E)"
  unfolding step5_def
  by (intro exits_1_and_then exits_1_attempt exits_1_ensure_props exits_1_ensure_jar)

lemma exits_1_step6: "exits_1 (step6 E)"
proof -
  have a: "exits_1 (and_then (attempt f) (tell m))" for f m
    by (intro exits_1_and_then exits_1_attempt exits_1_tell)
  show ?thesis
    by (rule exits_1_cases)
      (use exits_1D [OF a] in \<open>auto simp: step6_def die_def split: if_splits\<close>)
qed

lemma exits_1_step7: "exits_1 (step7 E)"
  unfolding step7_def by (intro exits_1_and_then exits_1_tell)

lemma exits_1_run: "exits_1 (run E)"
  unfolding run_def
  by (intro exits_1_and_then exits_1_tell exits_1_step0 exits_1_step1 exits_1_step2
      exits_1_step3 exits_1_step4 exits_1_step5 exits_1_step6 exits_1_step7)

lemma exit_status_nonzero:
  "exits_1 s \<Longrightarrow> exit_status (fst (s w)) \<noteq> 0 \<longleftrightarrow> fst (s w) \<noteq> Done"
  by (cases "fst (s w)") (auto simp: exit_status_def exits_1_def)

subsection \<open>The run in parts\<close>

lemma and_then_assoc: "and_then (and_then a b) c = and_then a (and_then b c)"
proof
  fix w
  obtain out w1 where a: "a w = (out, w1)" by (cases "a w")
  show "and_then (and_then a b) c w = and_then a (and_then b c) w"
    using a by (cases out) (simp_all add: and_then_def)
qed

lemma and_then_Done_iff:
  "and_then s1 s2 w = (Done, w') \<longleftrightarrow> (\<exists>w1. s1 w = (Done, w1) \<and> s2 w1 = (Done, w'))"
proof -
  obtain out w1 where a: "s1 w = (out, w1)" by (cases "s1 w")
  show ?thesis using a by (cases out) (auto simp: and_then_def)
qed

lemma run_steps_0_to_5: "run E = and_then (steps_0_to_5 E) (and_then (step6 E) (step7 E))"
  by (simp add: run_def steps_0_to_5_def and_then_assoc)

lemma run_steps_0_to_4:
  "run E = and_then (steps_0_to_4 E) (and_then (step5 E) (and_then (step6 E) (step7 E)))"
  by (simp add: run_def steps_0_to_4_def and_then_assoc)

lemma steps_0_to_5_4: "steps_0_to_5 E = and_then (steps_0_to_4 E) (step5 E)"
  by (simp add: steps_0_to_5_def steps_0_to_4_def and_then_assoc)

lemma step7_Done:
  "step7 E w = (Done, w\<lparr>printed := printed w @
     [Plain ''=== RESULT ==='', Ok ''Project is CI-safe'', Ok ''No local Gradle dependency'',
      Ok ''Ready for GitHub Actions build'',
      Plain ''NEXT: commit & push, then build ONLY via GitHub Actions'']\<rparr>)"
  by (simp add: step7_def and_then_def tell_def say_def)

lemma preserves_steps_0_to_5:
  assumes "q = cwd E @ [f]"
    and "f \<notin> {''.prepush_backup'', ''settings.gradle'', ''build.gradle'', ''gradle.properties'',
               ''gradle'', ''gradle-8.2.1.zip''}"
    and "\<not> endswith f ''gradle-wrapper.jar''"
  shows "preserves (\<lambda>t r. lookup t q = v) (steps_0_to_5 E)"
proof -
  have b: "\<not> prefix (BACKUP_DIR E) q" using assms(2) by (auto simp: assms(1) BACKUP_DIR_def)
  have 1: "preserves (\<lambda>t r. lookup t q = v \<and> True) (step1 E)"
    by (rule preserves_step1 [OF b])
  have 2: "preserves (\<lambda>t r. lookup t q = v \<and> True) (step2 E)"
    by (rule preserves_step2) (use assms(2) in \<open>simp add: assms(1)\<close>)
  have 3: "preserves (\<lambda>t r. lookup t q = v \<and> True) (step3 E)"
    by (rule preserves_step3) (use assms(2) in \<open>simp add: assms(1)\<close>)
  have 4: "preserves (\<lambda>t r. lookup t q = v \<and> True) (step4 E)"
    by (rule preserves_step4) (use assms(2) in \<open>simp add: assms(1)\<close>)
  have 5: "preserves (\<lambda>t r. lookup t q = v) (step5 E)"
    by (rule preserves_step5 [OF assms(1)]) (use assms(2,3) in simp_all)
  show ?thesis
    unfolding steps_0_to_5_def
    using 1 2 3 4 5 by (intro preserves_and_then preserves_tell preserves_step0) simp_all
qed

lemma step6_missing:
  "\<not> path_exists (files w) (gradlew E) \<Longrightarrow>
     step6 E w = (Exited 1, say (Fail ''gradlew script missing'') w)"
  by (simp add: step6_def die_def)

lemma step6_present:
  "lookup (files w) (gradlew E) = Some n \<Longrightarrow>
     step6 E w = (Done, w\<lparr>files := AList.update (gradlew E)
                    (case n of File c m \<Rightarrow> File c 493 | Dir m \<Rightarrow> Dir 493) (files w),
                  printed := printed w @ [Ok ''gradlew executable'']\<rparr>)"
  by (cases n)
    (simp_all add: step6_def path_exists_def and_then_def attempt_def chmod_def tell_def say_def)

lemma step6_Done:
  assumes "step6 E w = (Done, w')"
  shows "\<exists>n. lookup (files w') (gradlew E) = Some n \<and> mode_of n = 493"
proof (cases "lookup (files w) (gradlew E)")
  case None
  then show ?thesis using assms by (simp add: step6_def path_exists_def die_def)
next
  case (Some n)
  from step6_present [OF Some] assms show ?thesis
    by (cases n) (auto simp: lookup_update mode_of_def)
qed

lemmas fs_defs = lookup_def path_exists_def is_dir_def write_file_def mkdir_def mkdir_exist_ok_def
  chmod_def unlink_def copy_def then_fs_def rename_def rmtree_ignore_errors_def below_def
  has_entries_def move_tree_def endswith_def components_def joinpath_def namelist_def getinfo_def
  arcname_def extract_member_def digit_def two_digits_def decimal_def strftime_def

lemmas script_defs = and_then_def say_def tell_def die_def attempt_def BACKUP_DIR_def
  GRADLE_VERSION_def wrapper_dir_def wrapper_jar_def wrapper_props_def gradlew_def zip_path_def
  url_def required_def step0_def backup_name_def backed_up_def step1_def write_text_def
  step2_def step3_def step4_def urlretrieve_def install_jar_def open_zip_def ensure_jar_def
  ensure_props_def step5_def step6_def step7_def run_def exit_status_def steps_0_to_5_def
  steps_0_to_4_def

lemma run_steps_before_jar:
  "run E = and_then (steps_before_jar E) (and_then (ensure_jar E) (and_then (step6 E) (step7 E)))"
  by (simp add: run_steps_0_to_4 steps_before_jar_def step5_def and_then_assoc)

lemma write_file_new:
  assumes "is_dir t (butlast p)" "\<not> is_dir t p"
  shows "write_file t p c m0 =
     (None, AList.update p
        (File c (case lookup t p of Some (File c' m') \<Rightarrow> m' | _ \<Rightarrow> m0)) t)"
  using assms by (auto simp: write_file_def is_dir_def split: option.splits node.splits)

lemma install_jar_none:
  "filter (\<lambda>n. endswith n ''gradle-wrapper.jar'') (namelist z) = [] \<Longrightarrow>
     install_jar E z w = die ''gradle-wrapper.jar not found in Gradle distribution'' w"
  by (simp add: install_jar_def)

subsection \<open>The guards of the wrapper step\<close>

lemma preserves_conj:
  "preserves P s \<Longrightarrow> preserves P' s \<Longrightarrow> preserves (\<lambda>t r. P t r \<and> P' t r) s"
  by (simp add: preserves_def)

lemma ensure_props_present:
  "path_exists (files w) (wrapper_props E) \<Longrightarrow> ensure_props E w = (Done, w)"
  by (simp add: ensure_props_def)

lemma ensure_jar_present:
  "path_exists (files w) (wrapper_jar E) \<Longrightarrow>
     ensure_jar E w = (Done, w\<lparr>printed := printed w @ [Ok ''gradle-wrapper.jar already present'']\<rparr>)"
  by (simp add: ensure_jar_def tell_def say_def)

lemma below_wrapper_dir:
  assumes "below (wrapper_dir E) q"
  shows "\<not> prefix (BACKUP_DIR E) q" "q \<noteq> cwd E @ [f]" "\<not> prefix q (wrapper_dir E)"
    "q \<noteq> gradlew E"
proof -
  from assms obtain zs where "q = wrapper_dir E @ zs" "zs \<noteq> []"
    by (auto simp: below_def strict_prefix_def prefix_def)
  then obtain x xs where q: "q = cwd E @ ''gradle'' # ''wrapper'' # x # xs"
    by (cases zs) (auto simp: wrapper_dir_def)
  show "\<not> prefix (BACKUP_DIR E) q" by (simp add: q BACKUP_DIR_def)
  show "q \<noteq> cwd E @ [f]" by (simp add: q)
  show "\<not> prefix q (wrapper_dir E)" by (simp add: q wrapper_dir_def)
  show "q \<noteq> gradlew E" by (simp add: q gradlew_def)
qed

lemma preserves_steps_0_to_4:
  assumes "\<not> prefix (BACKUP_DIR E) q"
    and "q \<noteq> cwd E @ [''settings.gradle'']" "q \<noteq> cwd E @ [''build.gradle'']"
    and "q \<noteq> cwd E @ [''gradle.properties'']"
  shows "preserves (\<lambda>t r. lookup t q = v \<and> Q r) (steps_0_to_4 E)"
  unfolding steps_0_to_4_def
  by (intro preserves_and_then preserves_tell preserves_step0 preserves_step1 preserves_step2
      preserves_step3 preserves_step4 assms)

lemma preserves_with_jar:
  assumes b: "below (wrapper_dir E) q"
    and p: "q = wrapper_props E \<longrightarrow> v \<noteq> None"
  shows "preserves (\<lambda>t r. (lookup t (wrapper_jar E) = Some n \<and> r = r0) \<and> (lookup t q = v \<and> True))
           (run E)"
proof -
  let ?P = "\<lambda>t r. (lookup t (wrapper_jar E) = Some n \<and> r = r0) \<and> (lookup t q = v \<and> True)"
  have bj: "below (wrapper_dir E) (wrapper_jar E)"
    by (simp add: below_def wrapper_jar_def strict_prefix_def)
  note j = below_wrapper_dir [OF bj]
  note k = below_wrapper_dir [OF b]
  have 04: "preserves ?P (steps_0_to_4 E)"
    by (intro preserves_conj preserves_steps_0_to_4 j k)
  have mk: "preserves ?P (attempt (\<lambda>t. mkdir_parents t (wrapper_dir E) (new_dir_mode E)))"
    by (intro preserves_conj preserves_mkdir_wrapper j k)
  have jp: "wrapper_jar E \<noteq> wrapper_props E"
    by (simp add: wrapper_jar_def wrapper_props_def)
  have ep: "preserves ?P (ensure_props E)"
  proof (cases "q = wrapper_props E")
    case True
    show ?thesis
    proof (rule preserves_cases)
      fix w :: world
      assume a: "?P (files w) (requests w)"
      with True p have "path_exists (files w) (wrapper_props E)"
        by (auto simp: path_exists_def)
      from ensure_props_present [OF this] a
      show "?P (files (snd (ensure_props E w))) (requests (snd (ensure_props E w)))"
        by simp
    qed
  next
    case False
    show ?thesis by (intro preserves_conj preserves_ensure_props jp False)
  qed
  have ej: "preserves ?P (ensure_jar E)"
  proof (rule preserves_cases)
    fix w :: world
    assume a: "?P (files w) (requests w)"
    then have "path_exists (files w) (wrapper_jar E)" by (simp add: path_exists_def)
    from ensure_jar_present [OF this] a
    show "?P (files (snd (ensure_jar E w))) (requests (snd (ensure_jar E w)))"
      by simp
  qed
  have 6: "preserves ?P (step6 E)"
    by (intro preserves_conj preserves_step6 j k)
  show ?thesis
    unfolding run_steps_before_jar steps_before_jar_def
    by (intro preserves_and_then 04 mk ep ej 6 preserves_step7)
qed

subsection \<open>What a run that reaches its end has written\<close>

lemma write_text_Done:
  assumes "write_text E p c w = (Done, w')"
  shows "\<exists>m. lookup (files w') p = Some (File c m) \<and>
     m = (case lookup (files w) p of Some (File c' m') \<Rightarrow> m' | _ \<Rightarrow> new_file_mode E)"
proof -
  obtain r t where f: "write_file (files w) p c (new_file_mode E) = (r, t)"
    by (cases "write_file (files w) p c (new_file_mode E)")
  with assms have "r = None" and w': "w' = w\<lparr>files := t\<rparr>"
    by (auto simp: write_text_def attempt_def split: option.splits)
  with f write_file_ok [of "files w" p c "new_file_mode E" t] show ?thesis by simp
qed

lemma and_then_tell_Done:
  "and_then s (tell m) w = (Done, w') \<longleftrightarrow> (\<exists>w1. s w = (Done, w1) \<and> w' = say m w1)"
  by (auto simp: and_then_Done_iff tell_def)

lemma step2_Done:
  assumes "step2 E w = (Done, w')"
  shows "\<exists>m. lookup (files w') (cwd E @ [''settings.gradle'']) = Some (File settings_gradle_text m)"
proof -
  from assms obtain w1 where 1: "write_text E (cwd E @ [''settings.gradle'']) settings_gradle_text w = (Done, w1)"
    and 2: "w' = say (Ok ''settings.gradle normalized'') w1"
    by (auto simp: step2_def and_then_tell_Done)
  from write_text_Done [OF 1] 2 show ?thesis by (auto simp: say_def)
qed

lemma step3_Done:
  assumes "step3 E w = (Done, w')"
  shows "\<exists>m. lookup (files w') (cwd E @ [''build.gradle'']) = Some (File build_gradle_text m)"
proof -
  from assms obtain w1 where 1: "write_text E (cwd E @ [''build.gradle'']) build_gradle_text w = (Done, w1)"
    and 2: "w' = say (Ok ''build.gradle sanitized'') w1"
    by (auto simp: step3_def and_then_tell_Done)
  from write_text_Done [OF 1] 2 show ?thesis by (auto simp: say_def)
qed

lemma step4_Done:
  assumes "step4 E w = (Done, w')"
  shows "\<exists>m. lookup (files w') (cwd E @ [''gradle.properties'']) =
     Some (File (enforce_props (file_content (files w) (cwd E @ [''gradle.properties'']))) m)"
proof (cases "lookup (files w) (cwd E @ [''gradle.properties''])")
  case None
  with assms obtain w1 where 1: "write_text E (cwd E @ [''gradle.properties'']) (enforce_props None) w = (Done, w1)"
    and 2: "w' = say (Ok ''gradle.properties enforced'') w1"
    by (auto simp: step4_def and_then_tell_Done)
  from write_text_Done [OF 1] 2 None show ?thesis by (auto simp: say_def file_content_def)
next
  case (Some n)
  show ?thesis
  proof (cases n)
    case (File c m)
    with Some assms obtain w1 where
      1: "write_text E (cwd E @ [''gradle.properties'']) (enforce_props (Some c)) w = (Done, w1)"
      and 2: "w' = say (Ok ''gradle.properties enforced'') w1"
      by (auto simp: step4_def and_then_tell_Done)
    from write_text_Done [OF 1] 2 Some File show ?thesis by (auto simp: say_def file_content_def)
  next
    case (Dir m)
    with Some assms show ?thesis by (simp add: step4_def)
  qed
qed

lemma preservesD_Done:
  "preserves P s \<Longrightarrow> s w = (out, w') \<Longrightarrow> P (files w) (requests w) \<Longrightarrow> P (files w') (requests w')"
  using preservesD [of P s w] by simp

lemma preserves_lookup:
  "preserves (\<lambda>t r. lookup t q = v \<and> True) s \<Longrightarrow> preserves (\<lambda>t r. lookup t q = v) s"
  by simp

lemma run_Done_chain:
  assumes "run E w = (Done, w')"
  obtains wb w0 w1 w2 w3 w4 w5 w6 where
    "wb = say (Plain ''=== ANDROID PRE-PUSH SANITY & CI NORMALIZATION ==='') w"
    "step0 E wb = (Done, w0)" "step1 E w0 = (Done, w1)" "step2 E w1 = (Done, w2)"
    "step3 E w2 = (Done, w3)" "step4 E w3 = (Done, w4)" "step5 E w4 = (Done, w5)"
    "step6 E w5 = (Done, w6)" "step7 E w6 = (Done, w')"
proof -
  from assms obtain w0 where a0: "step0 E (say (Plain ''=== ANDROID PRE-PUSH SANITY & CI NORMALIZATION ==='') w) = (Done, w0)"
    and r0: "and_then (step1 E) (and_then (step2 E) (and_then (step3 E) (and_then (step4 E)
       (and_then (step5 E) (and_then (step6 E) (step7 E)))))) w0 = (Done, w')"
    by (auto simp: run_def and_then_Done_iff tell_def)
  from r0 obtain w1 w2 w3 w4 w5 w6 where
    "step1 E w0 = (Done, w1)" "step2 E w1 = (Done, w2)"
    "step3 E w2 = (Done, w3)" "step4 E w3 = (Done, w4)" "step5 E w4 = (Done, w5)"
    "step6 E w5 = (Done, w6)" "step7 E w6 = (Done, w')"
    unfolding and_then_Done_iff by blast
  with a0 that show thesis by blast
qed

lemma run_Done_files:
  assumes "run E w = (Done, w')"
  shows "\<exists>m. lookup (files w') (cwd E @ [''settings.gradle'']) = Some (File settings_gradle_text m)"
    and "\<exists>m. lookup (files w') (cwd E @ [''build.gradle'']) = Some (File build_gradle_text m)"
    and "\<exists>m. lookup (files w') (cwd E @ [''gradle.properties'']) =
     Some (File (enforce_props (file_content (files w) (cwd E @ [''gradle.properties'']))) m)"
proof -
  from assms obtain wb w0 w1 w2 w3 w4 w5 w6 where
    b: "wb = say (Plain ''=== ANDROID PRE-PUSH SANITY & CI NORMALIZATION ==='') w"
    and s: "step0 E wb = (Done, w0)" "step1 E w0 = (Done, w1)" "step2 E w1 = (Done, w2)"
    "step3 E w2 = (Done, w3)" "step4 E w3 = (Done, w4)" "step5 E w4 = (Done, w5)"
    "step6 E w5 = (Done, w6)" "step7 E w6 = (Done, w')"
    by (rule run_Done_chain)
  have e: "\<not> endswith ''settings.gradle'' ''gradle-wrapper.jar''"
    "\<not> endswith ''build.gradle'' ''gradle-wrapper.jar''"
    "\<not> endswith ''gradle.properties'' ''gradle-wrapper.jar''"
    by (simp_all add: endswith_def)
  have g: "cwd E @ [f] \<noteq> gradlew E" if "f \<noteq> ''gradlew''" for f
    using that by (simp add: gradlew_def)
  have nb: "\<not> prefix (BACKUP_DIR E) (cwd E @ [f])" if "f \<noteq> ''.prepush_backup''" for f
    using that by (auto simp: BACKUP_DIR_def)
  have 5: "preserves (\<lambda>t r. lookup t (cwd E @ [f]) = v) (step5 E)"
    if "f \<in> {''settings.gradle'', ''build.gradle'', ''gradle.properties''}" for f v
    by (rule preserves_step5 [OF refl]) (use that e in auto)
  have 6: "preserves (\<lambda>t r. lookup t (cwd E @ [f]) = v) (step6 E)"
    if "f \<in> {''settings.gradle'', ''build.gradle'', ''gradle.properties''}" for f v
    by (rule preserves_lookup, rule preserves_step6, rule g) (use that in auto)
  have 7: "files w' = files w6" using s(8) by (auto simp: step7_Done)
  \<comment> \<open>settings.gradle\<close>
  from step2_Done [OF s(3)] obtain m where
    "lookup (files w2) (cwd E @ [''settings.gradle'']) = Some (File settings_gradle_text m)" ..
  then have "lookup (files w3) (cwd E @ [''settings.gradle'']) = Some (File settings_gradle_text m)"
    using preservesD_Done [OF preserves_lookup [OF preserves_step3] s(4)] by simp
  then have "lookup (files w4) (cwd E @ [''settings.gradle'']) = Some (File settings_gradle_text m)"
    using preservesD_Done [OF preserves_lookup [OF preserves_step4] s(5)] by simp
  then have "lookup (files w5) (cwd E @ [''settings.gradle'']) = Some (File settings_gradle_text m)"
    using preservesD_Done [OF 5 s(6)] by simp
  then have "lookup (files w6) (cwd E @ [''settings.gradle'']) = Some (File settings_gradle_text m)"
    using preservesD_Done [OF 6 s(7)] by simp
  then show "\<exists>m. lookup (files w') (cwd E @ [''settings.gradle'']) = Some (File settings_gradle_text m)"
    using 7 by auto
  \<comment> \<open>build.gradle\<close>
  from step3_Done [OF s(4)] obtain m where
    "lookup (files w3) (cwd E @ [''build.gradle'']) = Some (File build_gradle_text m)" ..
  then have "lookup (files w4) (cwd E @ [''build.gradle'']) = Some (File build_gradle_text m)"
    using preservesD_Done [OF preserves_lookup [OF preserves_step4] s(5)] by simp
  then have "lookup (files w5) (cwd E @ [''build.gradle'']) = Some (File build_gradle_text m)"
    using preservesD_Done [OF 5 s(6)] by simp
  then have "lookup (files w6) (cwd E @ [''build.gradle'']) = Some (File build_gradle_text m)"
    using preservesD_Done [OF 6 s(7)] by simp
  then show "\<exists>m. lookup (files w') (cwd E @ [''build.gradle'']) = Some (File build_gradle_text m)"
    using 7 by auto
  \<comment> \<open>gradle.properties\<close>
  let ?gp = "cwd E @ [''gradle.properties'']"
  have "lookup (files wb) ?gp = lookup (files w) ?gp" by (simp add: b say_def)
  then have "lookup (files w0) ?gp = lookup (files w) ?gp"
    using preservesD_Done [OF preserves_step0 s(1), of "\<lambda>t r. lookup t ?gp = lookup (files w) ?gp"]
    by simp
  moreover have nbg: "\<not> prefix (BACKUP_DIR E) ?gp" by (rule nb) simp
  ultimately have "lookup (files w1) ?gp = lookup (files w) ?gp"
    using preservesD_Done [OF preserves_lookup [OF preserves_step1 [OF nbg]] s(2)] by simp
  then have "lookup (files w2) ?gp = lookup (files w) ?gp"
    using preservesD_Done [OF preserves_lookup [OF preserves_step2] s(3)] by simp
  then have "lookup (files w3) ?gp = lookup (files w) ?gp"
    using preservesD_Done [OF preserves_lookup [OF preserves_step3] s(4)] by simp
  then have fc: "file_content (files w3) ?gp = file_content (files w) ?gp"
    by (simp add: file_content_def)
  from step4_Done [OF s(5)] obtain m where
    "lookup (files w4) ?gp = Some (File (enforce_props (file_content (files w) ?gp)) m)"
    unfolding fc ..
  then have "lookup (files w5) ?gp = Some (File (enforce_props (file_content (files w) ?gp)) m)"
    using preservesD_Done [OF 5 s(6)] by simp
  then have "lookup (files w6) ?gp = Some (File (enforce_props (file_content (files w) ?gp)) m)"
    using preservesD_Done [OF 6 s(7)] by simp
  then show "\<exists>m. lookup (files w') ?gp = Some (File (enforce_props (file_content (files w) ?gp)) m)"
    using 7 by auto
qed

lemma file_content_lookup: "lookup t p = Some (File c m) \<Longrightarrow> file_content t p = Some c"
  by (simp add: file_content_def)

lemma user_keys_kept:
  assumes "k \<in> fst ` set (file_pairs c)"
  shows "k \<in> fst ` set (props_table (Some c))"
    and "k \<notin> fst ` set mandatory \<Longrightarrow> map_of (props_table (Some c)) k = last_value (file_pairs c) k"
proof -
  have "set (map fst (props_table (Some c))) = set (map fst (file_pairs c @ mandatory))"
    unfolding props_table_Some set_keys_setpairs by simp
  with assms show "k \<in> fst ` set (props_table (Some c))" by auto
  assume "k \<notin> fst ` set mandatory"
  then have "map_of (rev mandatory) k = None"
    by (simp add: map_of_eq_None_iff)
  then show "map_of (props_table (Some c)) k = last_value (file_pairs c) k"
    by (simp add: map_of_props_table last_value_def map_add_def)
qed

subsection \<open>Installing from a fresh directory\<close>















subsection \<open>The backup\<close>

lemma wf_fs_child:
  assumes "wf_fs t" "lookup t (p @ [x]) = Some n"
  shows "is_dir t p"
proof -
  from assms(2) have "(p @ [x], n) \<in> set t" by (auto simp: lookup_def dest: map_of_SomeD)
  with assms(1) have "fst (p @ [x], n) = [] \<or> is_dir t (butlast (fst (p @ [x], n)))"
    unfolding wf_fs_def list_all_iff by blast
  then show ?thesis by simp
qed

lemma copy_file_ok:
  assumes "lookup t src = Some (File c m)" "lookup t (butlast dst) = Some (Dir dm)"
    and "lookup t dst = None" "dst \<noteq> src"
  shows "\<exists>t'. copy t src dst m0 = (None, t') \<and>
     (\<forall>q. lookup t' q = (if q = dst then Some (File c m) else lookup t q))"
proof -
  have nd: "\<not> is_dir t dst" using assms(3) by (simp add: is_dir_def)
  have w: "write_file t dst c m0 = (None, AList.update dst (File c m0) t)"
    using assms(2,3) by (simp add: write_file_def)
  have ch: "chmod (AList.update dst (File c m0) t) dst m =
      (None, AList.update dst (File c m) (AList.update dst (File c m0) t))"
    by (simp add: chmod_def lookup_update)
  have "copy t src dst m0 = (None, AList.update dst (File c m) (AList.update dst (File c m0) t))"
    using assms(1,4) nd w ch by (simp add: copy_def then_fs_def)
  then show ?thesis by (simp add: lookup_update)
qed

lemma backup_name_inj: "backup_name f ts = backup_name f' ts \<longleftrightarrow> f = f'"
  by (simp add: backup_name_def)

lemma backup_files_ok:
  assumes "distinct fs"
    and "lookup (files w) (BACKUP_DIR E) = Some (Dir dm)"
    and "\<forall>f \<in> set fs. lookup (files w) (BACKUP_DIR E @ [backup_name f ts]) = None"
    and "\<forall>f \<in> set fs. \<not> is_dir (files w) (cwd E @ [f])"
  shows "\<exists>w'. backup_files E ts fs w = (Done, w') \<and> printed w' = printed w \<and>
     requests w' = requests w \<and>
     (\<forall>f \<in> set fs. lookup (files w') (BACKUP_DIR E @ [backup_name f ts]) =
        lookup (files w) (cwd E @ [f])) \<and>
     (\<forall>q. q \<notin> (\<lambda>f. BACKUP_DIR E @ [backup_name f ts]) ` set fs \<longrightarrow>
        lookup (files w') q = lookup (files w) q)"
  using assms
proof (induction fs arbitrary: w)
  case Nil
  show ?case by simp
next
  case (Cons f fs)
  let ?B = "BACKUP_DIR E"
  let ?dst = "?B @ [backup_name f ts]"
  let ?src = "cwd E @ [f]"
  have sd: "cwd E @ [g] \<noteq> ?B @ [x]" for g x by (simp add: BACKUP_DIR_def)
  have Bd: "?B \<noteq> ?B @ [x]" for x by simp
  have fresh: "?dst \<notin> (\<lambda>f. ?B @ [backup_name f ts]) ` set fs"
    using Cons.prems(1) by (auto simp: backup_name_inj)
  have step: "\<exists>w1. (if path_exists (files w) ?src
        then attempt (\<lambda>t. copy t ?src ?dst (new_file_mode E)) w else (Done, w)) = (Done, w1)
      \<and> printed w1 = printed w \<and> requests w1 = requests w
      \<and> (\<forall>q. lookup (files w1) q = (if q = ?dst then lookup (files w) ?src else lookup (files w) q))"
  proof (cases "lookup (files w) ?src")
    case None
    moreover have "lookup (files w) ?dst = None" using Cons.prems(3) by simp
    ultimately show ?thesis by (simp add: path_exists_def)
  next
    case (Some n)
    with Cons.prems(4) obtain c m where n: "n = File c m"
      by (cases n) (auto simp: is_dir_def)
    have par: "lookup (files w) (butlast ?dst) = Some (Dir dm)" using Cons.prems(2) by simp
    have dn: "lookup (files w) ?dst = None" using Cons.prems(3) by simp
    have ds: "?dst \<noteq> ?src" by (simp add: BACKUP_DIR_def)
    from copy_file_ok [OF Some [unfolded n] par dn ds, of "new_file_mode E"]
    obtain t' where "copy (files w) ?src ?dst (new_file_mode E) = (None, t')"
      and "\<forall>q. lookup t' q = (if q = ?dst then Some (File c m) else lookup (files w) q)"
      by auto
    then show ?thesis using Some n by (simp add: path_exists_def attempt_def)
  qed
  then obtain w1 where
    s1: "(if path_exists (files w) ?src
        then attempt (\<lambda>t. copy t ?src ?dst (new_file_mode E)) w else (Done, w)) = (Done, w1)"
    and p1: "printed w1 = printed w" "requests w1 = requests w"
    and l1: "\<And>q. lookup (files w1) q =
        (if q = ?dst then lookup (files w) ?src else lookup (files w) q)"
    by blast
  have bf: "backup_files E ts (f # fs) w = backup_files E ts fs w1"
    using s1 by (auto simp: and_then_def split: if_splits)
  have a: "distinct fs" using Cons.prems(1) by simp
  have b: "lookup (files w1) ?B = Some (Dir dm)"
    using l1 [of ?B] Cons.prems(2) by simp
  have c: "\<forall>g \<in> set fs. lookup (files w1) (?B @ [backup_name g ts]) = None"
    using l1 Cons.prems(1,3) by (auto simp: backup_name_inj)
  have d: "\<forall>g \<in> set fs. \<not> is_dir (files w1) (cwd E @ [g])"
    using l1 Cons.prems(4) by (simp add: is_dir_def BACKUP_DIR_def)
  from Cons.IH [OF a b c d] obtain w' where
    r: "backup_files E ts fs w1 = (Done, w')" "printed w' = printed w1" "requests w' = requests w1"
    and k: "\<forall>g \<in> set fs. lookup (files w') (?B @ [backup_name g ts]) = lookup (files w1) (cwd E @ [g])"
    and o: "\<forall>q. q \<notin> (\<lambda>f. ?B @ [backup_name f ts]) ` set fs \<longrightarrow>
        lookup (files w') q = lookup (files w1) q"
    by blast
  have 1: "lookup (files w') ?dst = lookup (files w) ?src"
    using o fresh l1 [of ?dst] by simp
  have 2: "\<forall>g \<in> set fs. lookup (files w') (?B @ [backup_name g ts]) = lookup (files w) (cwd E @ [g])"
    using k l1 by (simp add: BACKUP_DIR_def)
  have 3: "\<forall>q. q \<notin> (\<lambda>f. ?B @ [backup_name f ts]) ` set (f # fs) \<longrightarrow>
        lookup (files w') q = lookup (files w) q"
    using o l1 by simp
  from bf r p1 1 2 3 show ?case by simp
qed

lemma decimal_fuel_small: "n < 10 \<Longrightarrow> decimal_fuel k n = [digit n]"
  by (cases k) simp_all

lemma decimal_fuel_step:
  "10 \<le> n \<Longrightarrow> 0 < k \<Longrightarrow> decimal_fuel k n = decimal_fuel (k - 1) (n div 10) @ [digit n]"
  by (cases k) simp_all

lemma decimal_four:
  assumes "1000 \<le> y" "y \<le> 9999"
  shows "decimal y = [digit (y div 1000), digit (y div 100), digit (y div 10), digit y]"
proof -
  have 1: "decimal_fuel y y = decimal_fuel (y - 1) (y div 10) @ [digit y]"
    using assms by (intro decimal_fuel_step) simp_all
  have 2: "decimal_fuel (y - 1) (y div 10) = decimal_fuel (y - 1 - 1) (y div 10 div 10) @ [digit (y div 10)]"
    using assms by (intro decimal_fuel_step) simp_all
  have 3: "decimal_fuel (y - 1 - 1) (y div 10 div 10) =
      decimal_fuel (y - 1 - 1 - 1) (y div 10 div 10 div 10) @ [digit (y div 10 div 10)]"
    using assms by (intro decimal_fuel_step) simp_all
  have 4: "decimal_fuel (y - 1 - 1 - 1) (y div 10 div 10 div 10) = [digit (y div 10 div 10 div 10)]"
    using assms by (intro decimal_fuel_small) simp
  show ?thesis
    unfolding decimal_def 1 2 3 4 by (simp add: div_mult2_eq [symmetric])
qed

lemma is_digit_digit [simp]: "is_digit (digit n)"
  by (simp add: is_digit_def digit_def)

lemma stamp_shape_strftime:
  assumes "1000 \<le> year d" "year d \<le> 9999"
  shows "stamp_shape (strftime d)"
  by (simp add: stamp_shape_def strftime_def decimal_four [OF assms] two_digits_def)

lemma step1_present:
  "path_exists (files w) (BACKUP_DIR E) \<Longrightarrow>
     step1 E w = (Done, w\<lparr>printed := printed w @ [Info ''Backup already exists - skipping'']\<rparr>)"
  by (simp add: step1_def tell_def say_def)

lemma step1_fresh:
  assumes a: "\<not> path_exists (files w) (BACKUP_DIR E)" and wf: "wf_fs (files w)"
    and c: "is_dir (files w) (cwd E)"
    and nd: "\<forall>f \<in> set backed_up. \<not> is_dir (files w) (cwd E @ [f])"
  shows "\<exists>w'. step1 E w = (Done, w')
     \<and> printed w' = printed w @ [Ok ''Original files backed up''] \<and> requests w' = requests w
     \<and> lookup (files w') (BACKUP_DIR E) = Some (Dir (new_dir_mode E))
     \<and> (\<forall>f \<in> set backed_up.
           lookup (files w') (BACKUP_DIR E @ [backup_name f (strftime (now E))]) =
           lookup (files w) (cwd E @ [f]))
     \<and> (\<forall>q. q \<noteq> BACKUP_DIR E \<and>
              q \<notin> (\<lambda>f. BACKUP_DIR E @ [backup_name f (strftime (now E))]) ` set backed_up \<longrightarrow>
              lookup (files w') q = lookup (files w) q)"
proof -
  let ?B = "BACKUP_DIR E" and ?ts = "strftime (now E)"
  let ?t1 = "AList.update ?B (Dir (new_dir_mode E)) (files w)"
  let ?w1 = "w\<lparr>files := ?t1\<rparr>"
  from c obtain m where cd: "lookup (files w) (cwd E) = Some (Dir m)" by (auto dest: is_dirE)
  have bB: "butlast ?B = cwd E" by (simp add: BACKUP_DIR_def)
  have mk: "mkdir (files w) ?B (new_dir_mode E) = (None, ?t1)"
    using cd a by (simp add: mkdir_def bB)
  have nB: "\<not> is_dir (files w) ?B" using a by (simp add: is_dir_def path_exists_def)
  have ch: "lookup (files w) (?B @ [x]) = None" for x
  proof (cases "lookup (files w) (?B @ [x])")
    case (Some n)
    from wf_fs_child [OF wf Some] nB show ?thesis by simp
  qed simp
  have 1: "distinct backed_up" by (simp add: backed_up_def)
  have 2: "lookup (files ?w1) ?B = Some (Dir (new_dir_mode E))" by (simp add: lookup_update)
  have 3: "\<forall>f \<in> set backed_up. lookup (files ?w1) (?B @ [backup_name f ?ts]) = None"
    using ch by (simp add: lookup_update)
  have sB: "cwd E @ [f] \<noteq> ?B" if "f \<in> set backed_up" for f
    using that by (auto simp: backed_up_def BACKUP_DIR_def)
  have 4: "\<forall>f \<in> set backed_up. \<not> is_dir (files ?w1) (cwd E @ [f])"
    using nd sB by (simp add: is_dir_def lookup_update)
  from backup_files_ok [OF 1 2 3 4] obtain w2 where
    b: "backup_files E ?ts backed_up ?w1 = (Done, w2)" "printed w2 = printed w"
      "requests w2 = requests w"
    and k: "\<forall>f \<in> set backed_up. lookup (files w2) (?B @ [backup_name f ?ts]) =
        lookup (files ?w1) (cwd E @ [f])"
    and o: "\<forall>q. q \<notin> (\<lambda>f. ?B @ [backup_name f ?ts]) ` set backed_up \<longrightarrow>
        lookup (files w2) q = lookup (files ?w1) q"
    by auto
  have s: "step1 E w = (Done, say (Ok ''Original files backed up'') w2)"
    using a mk b(1) by (simp add: step1_def and_then_def attempt_def tell_def)
  have Bn: "?B \<notin> (\<lambda>f. ?B @ [backup_name f ?ts]) ` set backed_up" by auto
  have r1: "lookup (files w2) ?B = Some (Dir (new_dir_mode E))"
    using o Bn 2 by simp
  have r2: "\<forall>f \<in> set backed_up. lookup (files w2) (?B @ [backup_name f ?ts]) =
        lookup (files w) (cwd E @ [f])"
    using k sB by (simp add: lookup_update)
  have r3: "\<forall>q. q \<noteq> ?B \<and> q \<notin> (\<lambda>f. ?B @ [backup_name f ?ts]) ` set backed_up \<longrightarrow>
        lookup (files w2) q = lookup (files w) q"
    using o by (simp add: lookup_update)
  from s b(2,3) r1 r2 r3 show ?thesis by (simp add: say_def)
qed

lemma preserves_backup_dir:
  assumes "v \<noteq> None"
  shows "preserves (\<lambda>t r. lookup t (BACKUP_DIR E) = v) (run E)"
proof -
  let ?B = "BACKUP_DIR E"
  have B: "?B = cwd E @ [''.prepush_backup'']" by (simp add: BACKUP_DIR_def)
  have 1: "preserves (\<lambda>t r. lookup t ?B = v) (step1 E)"
  proof (rule preserves_cases)
    fix w :: world
    assume a: "lookup (files w) ?B = v"
    with assms have "path_exists (files w) ?B" by (simp add: path_exists_def)
    from step1_present [OF this] a show "lookup (files (snd (step1 E w))) ?B = v" by simp
  qed
  have 2: "preserves (\<lambda>t r. lookup t ?B = v) (step2 E)"
    by (rule preserves_lookup, rule preserves_step2) (simp add: B)
  have 3: "preserves (\<lambda>t r. lookup t ?B = v) (step3 E)"
    by (rule preserves_lookup, rule preserves_step3) (simp add: B)
  have 4: "preserves (\<lambda>t r. lookup t ?B = v) (step4 E)"
    by (rule preserves_lookup, rule preserves_step4) (simp add: B)
  have 5: "preserves (\<lambda>t r. lookup t ?B = v) (step5 E)"
    by (rule preserves_step5 [OF B]) (simp_all add: endswith_def)
  have 6: "preserves (\<lambda>t r. lookup t ?B = v) (step6 E)"
    by (rule preserves_lookup, rule preserves_step6) (simp add: B gradlew_def)
  show ?thesis
    unfolding run_def
    by (intro preserves_and_then preserves_tell preserves_step0 1 2 3 4 5 6 preserves_step7)
qed


section \<open>The claims about the properties table\<close>


text \<open>
  C1. When every line of an existing \<^verbatim>\<open>gradle.properties\<close> has a separator, the table
  written has as keys the keys of the lines followed by the three mandatory keys, each
  at the place where it is first seen and none twice; every key is bound to the value of
  the last assignment made to it, the three mandatory assignments coming last; the text
  is one \<^verbatim>\<open>key=value\<close> line per entry, each ended by a line feed, and reads back as
  these lines. The file \<^verbatim>\<open>foo=bar\<close> gives \<^verbatim>\<open>foo=bar\<close> and the three mandatory lines.
  Step 4 of the script, run in a directory where \<^verbatim>\<open>gradle.properties\<close> is a file
  with the text \<open>c\<close>, goes on after it has replaced the content of that file by this
  text, kept its mode, changed no other path and printed its one line.
\<close>

theorem props_enforcer_table:
  assumes "\<forall>l \<in> set (file_lines c). sep \<in> set l"
  shows "map fst (props_table (Some c)) =
           first_seen (map fst (map line_pair (file_lines c) @ mandatory))
       \<and> distinct (map fst (props_table (Some c)))
       \<and> (\<forall>k. map_of (props_table (Some c)) k =
               last_value (map line_pair (file_lines c) @ mandatory) k)
       \<and> (\<forall>l \<in> set (file_lines c). fst (line_pair l) \<in> set (map fst (props_table (Some c))))
       \<and> set mandatory \<subseteq> set (props_table (Some c))
       \<and> enforce_props (Some c) =
           concat (map (\<lambda>(k, v). k @ [sep] @ v @ [10]) (props_table (Some c)))
       \<and> file_lines (enforce_props (Some c)) =
           map (\<lambda>(k, v). k @ [sep] @ v) (props_table (Some c))
       \<and> enforce_props (Some (str ''foo=bar'')) =
           str ''foo=bar\<newline>android.useAndroidX=true\<newline>android.enableJetifier=true\<newline>org.gradle.jvmargs=-Xmx2048m\<newline>''
       \<and> (\<forall>E w m. lookup (files w) (cwd E @ [''gradle.properties'']) = Some (File c m) \<and>
              is_dir (files w) (cwd E) \<longrightarrow>
              step4 E w =
                (Done, w\<lparr>files := AList.update (cwd E @ [''gradle.properties''])
                            (File (enforce_props (Some c)) m) (files w),
                         printed := printed w @ [Ok ''gradle.properties enforced'']\<rparr>)
              \<and> lookup (files (snd (step4 E w))) (cwd E @ [''gradle.properties'']) =
                  Some (File (enforce_props (Some c)) m)
              \<and> (\<forall>q. q \<noteq> cwd E @ [''gradle.properties''] \<longrightarrow>
                     lookup (files (snd (step4 E w))) q = lookup (files w) q))"
proof -
  from assms have "filter (\<lambda>l. sep \<in> set l) (file_lines c) = file_lines c"
    by (simp add: filter_id_conv)
  then have fp: "file_pairs c = map line_pair (file_lines c)"
    by (simp add: file_pairs_def)
  have keys: "map fst (props_table (Some c)) =
      first_seen (map fst (map line_pair (file_lines c) @ mandatory))"
    using keys_props_table_Some [of c] by (simp add: fp)
  have vals: "\<forall>k. map_of (props_table (Some c)) k =
      last_value (map line_pair (file_lines c) @ mandatory) k"
    using map_of_props_table [of "Some c"] by (simp add: fp last_value_def)
  have "set (map fst (props_table (Some c))) = set (map fst (file_pairs c @ mandatory))"
    unfolding props_table_Some set_keys_setpairs by simp
  then have mem: "\<forall>l \<in> set (file_lines c). fst (line_pair l) \<in> set (map fst (props_table (Some c)))"
    by (auto simp: fp)
  have out: "enforce_props (Some c) =
      concat (map (\<lambda>(k, v). k @ [sep] @ v @ [10]) (props_table (Some c)))"
    by (simp add: enforce_props_def render_concat props_table_nonempty)
  have lines: "file_lines (enforce_props (Some c)) =
      map (\<lambda>(k, v). k @ [sep] @ v) (props_table (Some c))"
    by (simp add: enforce_props_def file_lines_render)
  have ex: "enforce_props (Some (str ''foo=bar'')) =
      str ''foo=bar\<newline>android.useAndroidX=true\<newline>android.enableJetifier=true\<newline>org.gradle.jvmargs=-Xmx2048m\<newline>''"
    by (simp add: text_defs)
  have step: "\<forall>E w m. lookup (files w) (cwd E @ [''gradle.properties'']) = Some (File c m) \<and>
              is_dir (files w) (cwd E) \<longrightarrow>
              step4 E w =
                (Done, w\<lparr>files := AList.update (cwd E @ [''gradle.properties''])
                            (File (enforce_props (Some c)) m) (files w),
                         printed := printed w @ [Ok ''gradle.properties enforced'']\<rparr>)
              \<and> lookup (files (snd (step4 E w))) (cwd E @ [''gradle.properties'']) =
                  Some (File (enforce_props (Some c)) m)
              \<and> (\<forall>q. q \<noteq> cwd E @ [''gradle.properties''] \<longrightarrow>
                     lookup (files (snd (step4 E w))) q = lookup (files w) q)"
    by (simp add: step4_File lookup_update)
  from keys vals mem out lines ex step distinct_props_table [of "Some c"]
    mandatory_in_table [of "Some c"]
  show ?thesis by blast
qed

theorem props_enforcer_table_witness:
  "file_lines (str ''foo=bar'') = [str ''foo=bar'']
   \<and> sep \<in> set (str ''foo=bar'')
   \<and> map fst (props_table (Some (str ''foo=bar''))) =
       [str ''foo'', str ''android.useAndroidX'', str ''android.enableJetifier'',
        str ''org.gradle.jvmargs'']
   \<and> distinct (map fst (props_table (Some (str ''foo=bar''))))
   \<and> step4
        \<lparr>cwd = [''p''], new_file_mode = 420, new_dir_mode = 493,
         now = \<lparr>year = 2024, month = 3, day = 7, hour = 9, minute = 5, second = 1\<rparr>,
         fetch = Unreachable, unzip = (\<lambda>b. None)\<rparr>
        \<lparr>files = [([''p''], Dir 493),
                  ([''p'', ''gradle.properties''], File (str ''foo=bar'') 384)],
         printed = [], requests = []\<rparr> =
       (Done,
        \<lparr>files = [([''p''], Dir 493),
                  ([''p'', ''gradle.properties''],
                   File (str ''foo=bar\<newline>android.useAndroidX=true\<newline>android.enableJetifier=true\<newline>org.gradle.jvmargs=-Xmx2048m\<newline>'') 384)],
         printed = [Ok ''gradle.properties enforced''], requests = []\<rparr>)"
proof -
  let ?E = "\<lparr>cwd = [''p''], new_file_mode = 420, new_dir_mode = 493,
         now = \<lparr>year = 2024, month = 3, day = 7, hour = 9, minute = 5, second = 1\<rparr>,
         fetch = Unreachable, unzip = (\<lambda>b. None)\<rparr>"
  let ?w = "\<lparr>files = [([''p''], Dir 493),
                  ([''p'', ''gradle.properties''], File (str ''foo=bar'') 384)],
         printed = [], requests = []\<rparr>"
  have l: "file_lines (str ''foo=bar'') = [str ''foo=bar'']" and m: "sep \<in> set (str ''foo=bar'')"
    by (simp_all add: text_defs)
  then have h: "\<forall>l \<in> set (file_lines (str ''foo=bar'')). sep \<in> set l"
    by simp
  note t = props_enforcer_table [OF h]
  have k: "map fst (props_table (Some (str ''foo=bar''))) =
       [str ''foo'', str ''android.useAndroidX'', str ''android.enableJetifier'',
        str ''org.gradle.jvmargs'']"
    by (simp add: text_defs)
  have pre: "lookup (files ?w) (cwd ?E @ [''gradle.properties'']) = Some (File (str ''foo=bar'') 384)
      \<and> is_dir (files ?w) (cwd ?E)"
    by (simp add: lookup_def is_dir_def)
  from t have "lookup (files ?w) (cwd ?E @ [''gradle.properties'']) = Some (File (str ''foo=bar'') 384) \<and>
      is_dir (files ?w) (cwd ?E) \<longrightarrow>
      step4 ?E ?w =
        (Done, ?w\<lparr>files := AList.update (cwd ?E @ [''gradle.properties''])
                    (File (enforce_props (Some (str ''foo=bar''))) 384) (files ?w),
                 printed := printed ?w @ [Ok ''gradle.properties enforced'']\<rparr>)"
    by blast
  with pre have s: "step4 ?E ?w =
        (Done, ?w\<lparr>files := AList.update (cwd ?E @ [''gradle.properties''])
                    (File (enforce_props (Some (str ''foo=bar''))) 384) (files ?w),
                 printed := printed ?w @ [Ok ''gradle.properties enforced'']\<rparr>)"
    by blast
  from t have ex: "enforce_props (Some (str ''foo=bar'')) =
      str ''foo=bar\<newline>android.useAndroidX=true\<newline>android.enableJetifier=true\<newline>org.gradle.jvmargs=-Xmx2048m\<newline>''"
    by blast
  have s': "step4 ?E ?w = (Done,
        \<lparr>files = [([''p''], Dir 493),
                  ([''p'', ''gradle.properties''],
                   File (str ''foo=bar\<newline>android.useAndroidX=true\<newline>android.enableJetifier=true\<newline>org.gradle.jvmargs=-Xmx2048m\<newline>'') 384)],
         printed = [Ok ''gradle.properties enforced''], requests = []\<rparr>)"
    unfolding s ex by simp
  from l m k s' t show ?thesis by blast
qed

text \<open>
  C8. Every key and every value of the table has no white space at either end: the
  parser stores, for a line with a separator, the text before the first separator and
  the text after it, each without the white space around it. The line
  \<^verbatim>\<open> foo = bar \<close> is stored as key \<^verbatim>\<open>foo\<close> and value \<^verbatim>\<open>bar\<close> and written
  \<^verbatim>\<open>foo=bar\<close>, which is not the line that was read.
\<close>

theorem parser_strips_key_and_value:
  "(\<forall>p \<in> set (props_table e). stripped (fst p) \<and> stripped (snd p))
   \<and> parse_line d l =
       (if sep \<in> set l then setitem (fst (line_pair l)) (snd (line_pair l)) d else d)
   \<and> stripped (fst (line_pair l)) \<and> stripped (snd (line_pair l))
   \<and> (\<exists>a b. before_sep l = a @ fst (line_pair l) @ b \<and> list_all isspace a \<and> list_all isspace b)
   \<and> (\<exists>a b. after_sep l = a @ snd (line_pair l) @ b \<and> list_all isspace a \<and> list_all isspace b)
   \<and> parse_line d (str '' foo = bar '') = setitem (str ''foo'') (str ''bar'') d
   \<and> enforce_props (Some (str '' foo = bar '')) =
       str ''foo=bar\<newline>android.useAndroidX=true\<newline>android.enableJetifier=true\<newline>org.gradle.jvmargs=-Xmx2048m\<newline>''
   \<and> hd (file_lines (enforce_props (Some (str '' foo = bar '')))) \<noteq> str '' foo = bar ''"
proof -
  have a: "\<forall>p \<in> set (props_table e). stripped (fst p) \<and> stripped (snd p)"
    using clean_props_table [of _ e] by (simp add: clean_pair_def)
  have b: "parse_line d l =
      (if sep \<in> set l then setitem (fst (line_pair l)) (snd (line_pair l)) d else d)"
    by (simp add: parse_line_def line_pair_def)
  have c: "stripped (fst (line_pair l)) \<and> stripped (snd (line_pair l))"
    by (simp add: line_pair_def stripped_strip)
  have d: "\<exists>a b. before_sep l = a @ fst (line_pair l) @ b \<and> list_all isspace a \<and> list_all isspace b"
    using strip_decomp_list [of "before_sep l"] by (simp add: line_pair_def)
  have e: "\<exists>a b. after_sep l = a @ snd (line_pair l) @ b \<and> list_all isspace a \<and> list_all isspace b"
    using strip_decomp_list [of "after_sep l"] by (simp add: line_pair_def)
  have f: "parse_line d (str '' foo = bar '') = setitem (str ''foo'') (str ''bar'') d"
    by (simp add: text_defs)
  have g: "enforce_props (Some (str '' foo = bar '')) =
       str ''foo=bar\<newline>android.useAndroidX=true\<newline>android.enableJetifier=true\<newline>org.gradle.jvmargs=-Xmx2048m\<newline>''"
    by (simp add: text_defs)
  have h: "hd (file_lines (enforce_props (Some (str '' foo = bar '')))) \<noteq> str '' foo = bar ''"
    unfolding g by (simp add: text_defs)
  from a b c d e f g h show ?thesis by blast
qed

theorem parser_strips_key_and_value_witness:
  "(str ''foo'', str ''bar'') \<in> set (props_table (Some (str '' foo = bar '')))
   \<and> stripped (str ''foo'') \<and> stripped (str ''bar'')"
proof -
  have m: "(str ''foo'', str ''bar'') \<in> set (props_table (Some (str '' foo = bar '')))"
    by (simp add: text_defs)
  with parser_strips_key_and_value [of "Some (str '' foo = bar '')"] show ?thesis
    by fastforce
qed

text \<open>
  C9, as stated, fails for a mandatory key: written twice, it ends bound to the mandatory
  value and not to the value of its last line.
\<close>

theorem duplicate_mandatory_key_counterexample:
  "count_list (map fst (file_pairs (str ''android.useAndroidX=false\<newline>android.useAndroidX=no'')))
       (str ''android.useAndroidX'') = 2
   \<and> last_value (file_pairs (str ''android.useAndroidX=false\<newline>android.useAndroidX=no''))
       (str ''android.useAndroidX'') = Some (str ''no'')
   \<and> map_of (props_table (Some (str ''android.useAndroidX=false\<newline>android.useAndroidX=no'')))
       (str ''android.useAndroidX'') = Some (str ''true'')
   \<and> str ''true'' \<noteq> str ''no''"
  by (simp add: text_defs file_pairs_def last_value_def)

text \<open>
  C9, amended. A key that occurs on several lines with a separator is once in the table,
  the keys before it being the keys first seen before its first line; it is bound to the
  value of its last line unless it is one of the three mandatory keys, which are bound to
  their mandatory values. The text written has exactly the pairs of the table.
\<close>

theorem duplicate_key_once:
  assumes "1 < count_list (map fst (file_pairs c)) k"
  shows "count_list (map fst (props_table (Some c))) k = 1
       \<and> takeWhile (\<lambda>x. x \<noteq> k) (map fst (props_table (Some c))) =
           first_seen (takeWhile (\<lambda>x. x \<noteq> k) (map fst (file_pairs c)))
       \<and> map_of (props_table (Some c)) k =
           (case map_of mandatory k of Some v \<Rightarrow> Some v | None \<Rightarrow> last_value (file_pairs c) k)
       \<and> file_pairs (enforce_props (Some c)) = props_table (Some c)"
proof -
  from assms have "count_list (map fst (file_pairs c)) k \<noteq> 0" by simp
  then have k: "k \<in> set (map fst (file_pairs c))" by (simp add: count_list_0_iff)
  then have "k \<in> set (map fst (props_table (Some c)))"
    unfolding props_table_Some set_keys_setpairs by simp
  then have once: "count_list (map fst (props_table (Some c))) k = 1"
    using distinct_props_table [of "Some c"] by (simp add: distinct_count_list)
  have pos: "takeWhile (\<lambda>x. x \<noteq> k) (map fst (props_table (Some c))) =
      first_seen (takeWhile (\<lambda>x. x \<noteq> k) (map fst (file_pairs c)))"
    unfolding keys_props_table_Some using k by (rule first_seen_takeWhile)
  have val: "map_of (props_table (Some c)) k =
      (case map_of mandatory k of Some v \<Rightarrow> Some v | None \<Rightarrow> last_value (file_pairs c) k)"
    by (simp add: map_of_props_table map_of_append map_add_def map_of_rev_mandatory last_value_def
        split: option.splits)
  have "file_pairs (enforce_props (Some c)) = props_table (Some c)"
    by (simp add: enforce_props_def file_pairs_render)
  with once pos val show ?thesis by blast
qed

theorem duplicate_key_once_witness:
  "1 < count_list (map fst (file_pairs (str ''a=1\<newline>b=2\<newline>a=3''))) (str ''a'')
   \<and> map_of (props_table (Some (str ''a=1\<newline>b=2\<newline>a=3''))) (str ''a'') = Some (str ''3'')
   \<and> count_list (map fst (props_table (Some (str ''a=1\<newline>b=2\<newline>a=3'')))) (str ''a'') = 1"
proof -
  have h: "1 < count_list (map fst (file_pairs (str ''a=1\<newline>b=2\<newline>a=3''))) (str ''a'')"
    by (simp add: text_defs file_pairs_def)
  have "map_of (props_table (Some (str ''a=1\<newline>b=2\<newline>a=3''))) (str ''a'') = Some (str ''3'')"
    by (simp add: text_defs)
  with h duplicate_key_once [OF h] show ?thesis by blast
qed


section \<open>The claims about the run\<close>

text \<open>
  C3. When one of \<^verbatim>\<open>app\<close>, \<^verbatim>\<open>settings.gradle\<close> and \<^verbatim>\<open>build.gradle\<close> is
  missing from the working directory, the run ends with exit status 1 after it has
  printed its heading and the line that names the first of them that is missing, in the
  order of the list; it has changed no file and requested no address.
\<close>

theorem missing_required_item:
  assumes "filter (\<lambda>r. \<not> path_exists (files w) (cwd E @ [r])) required = r # rs"
  shows "run E w =
           (Exited 1,
            w\<lparr>printed := printed w @
               [Plain ''=== ANDROID PRE-PUSH SANITY & CI NORMALIZATION ==='',
                Fail (''Missing required project item: '' @ r)]\<rparr>)
       \<and> exit_status (fst (run E w)) \<noteq> 0
       \<and> files (snd (run E w)) = files w
       \<and> requests (snd (run E w)) = requests w"
proof -
  let ?w = "say (Plain ''=== ANDROID PRE-PUSH SANITY & CI NORMALIZATION ==='') w"
  have f: "files ?w = files w" by (simp add: say_def)
  have "check_required E required ?w = die (''Missing required project item: '' @ r) ?w"
    using assms by (simp add: check_required_missing f)
  then have c: "check_required E required ?w = (Exited 1, say (Fail (''Missing required project item: '' @ r)) ?w)"
    by (simp add: die_def)
  have "step0 E ?w = (Exited 1, say (Fail (''Missing required project item: '' @ r)) ?w)"
    using c by (simp add: step0_def and_then_def)
  then have "run E w = (Exited 1, say (Fail (''Missing required project item: '' @ r)) ?w)"
    by (simp add: run_def and_then_def tell_def)
  then show ?thesis by (simp add: say_def exit_status_def)
qed

theorem missing_required_item_witness:
  "filter (\<lambda>r. \<not> path_exists
       [([''p''], Dir 493), ([''p'', ''app''], Dir 493),
        ([''p'', ''gradle.properties''], File (str ''a=b'') 420)] ([''p''] @ [r])) required
     = [''settings.gradle'', ''build.gradle'']
   \<and> run \<lparr>cwd = [''p''], new_file_mode = 420, new_dir_mode = 493,
         now = \<lparr>year = 2024, month = 3, day = 7, hour = 9, minute = 5, second = 1\<rparr>,
         fetch = Unreachable, unzip = (\<lambda>b. None)\<rparr>
        \<lparr>files = [([''p''], Dir 493), ([''p'', ''app''], Dir 493),
                  ([''p'', ''gradle.properties''], File (str ''a=b'') 420)],
         printed = [], requests = []\<rparr> =
       (Exited 1,
        \<lparr>files = [([''p''], Dir 493), ([''p'', ''app''], Dir 493),
                  ([''p'', ''gradle.properties''], File (str ''a=b'') 420)],
         printed = [Plain ''=== ANDROID PRE-PUSH SANITY & CI NORMALIZATION ==='',
                    Fail ''Missing required project item: settings.gradle''],
         requests = []\<rparr>)"
proof -
  let ?E = "\<lparr>cwd = [''p''], new_file_mode = 420, new_dir_mode = 493,
         now = \<lparr>year = 2024, month = 3, day = 7, hour = 9, minute = 5, second = 1\<rparr>,
         fetch = Unreachable, unzip = (\<lambda>b. None)\<rparr>"
  let ?w = "\<lparr>files = [([''p''], Dir 493), ([''p'', ''app''], Dir 493),
                  ([''p'', ''gradle.properties''], File (str ''a=b'') 420)],
         printed = [], requests = []\<rparr>"
  have h: "filter (\<lambda>r. \<not> path_exists (files ?w) (cwd ?E @ [r])) required
     = [''settings.gradle'', ''build.gradle'']"
    by (simp add: required_def path_exists_def lookup_def)
  from missing_required_item [OF h] h show ?thesis by simp
qed

text \<open>
  C7. When \<^verbatim>\<open>gradlew\<close> is missing from the working directory, step 6 ends the script
  with exit status 1 and the line that says so; the whole run then ends with a status
  that is not 0, still without a \<^verbatim>\<open>gradlew\<close>, and when it gets as far as step 6 it
  ends there, with that line. When \<^verbatim>\<open>gradlew\<close> is there, step 6 sets its mode to 493,
  which is \<^verbatim>\<open>0o755\<close>, and changes nothing else; and after every run that reaches its
  end, \<^verbatim>\<open>gradlew\<close> exists with exactly the mode 493.
\<close>

theorem gradlew_made_executable:
  "(\<not> path_exists (files w) (gradlew E) \<longrightarrow>
       step6 E w = (Exited 1, say (Fail ''gradlew script missing'') w)
     \<and> exit_status (fst (run E w)) \<noteq> 0
     \<and> \<not> path_exists (files (snd (run E w))) (gradlew E)
     \<and> (\<forall>w5. steps_0_to_5 E w = (Done, w5) \<longrightarrow>
           run E w = (Exited 1, say (Fail ''gradlew script missing'') w5)))
   \<and> (\<forall>n. lookup (files w) (gradlew E) = Some n \<longrightarrow>
         step6 E w =
           (Done, w\<lparr>files := AList.update (gradlew E)
                      (case n of File c m \<Rightarrow> File c 493 | Dir m \<Rightarrow> Dir 493) (files w),
                    printed := printed w @ [Ok ''gradlew executable'']\<rparr>))
   \<and> (\<forall>w'. run E w = (Done, w') \<longrightarrow>
         (\<exists>n. lookup (files w') (gradlew E) = Some n \<and> mode_of n = 493))"
proof (intro conjI impI allI)
  assume m: "\<not> path_exists (files w) (gradlew E)"
  show "step6 E w = (Exited 1, say (Fail ''gradlew script missing'') w)"
    by (rule step6_missing [OF m])
  have pr: "preserves (\<lambda>t r. lookup t (gradlew E) = None) (steps_0_to_5 E)"
    by (rule preserves_steps_0_to_5 [of _ _ "''gradlew''"]) (simp_all add: gradlew_def endswith_def)
  have l: "lookup (files w) (gradlew E) = None" using m by (simp add: path_exists_def)
  obtain out w5 where s: "steps_0_to_5 E w = (out, w5)" by (cases "steps_0_to_5 E w")
  have l5: "lookup (files w5) (gradlew E) = None"
    using preservesD [OF pr, of w] l s by simp
  then have m5: "\<not> path_exists (files w5) (gradlew E)" by (simp add: path_exists_def)
  have r: "run E w = (if out = Done then (Exited 1, say (Fail ''gradlew script missing'') w5)
                      else (out, w5))"
    using s step6_missing [OF m5]
    by (cases out) (simp_all add: run_steps_0_to_5 and_then_def)
  then have nd: "fst (run E w) \<noteq> Done" by auto
  then show "exit_status (fst (run E w)) \<noteq> 0"
    using exit_status_nonzero [OF exits_1_run, of E w] by simp
  show "\<not> path_exists (files (snd (run E w))) (gradlew E)"
    using r m5 by (auto simp: say_def path_exists_def)
  show "run E w = (Exited 1, say (Fail ''gradlew script missing'') w5')"
    if "steps_0_to_5 E w = (Done, w5')" for w5'
    using that s r by simp
next
  fix n assume "lookup (files w) (gradlew E) = Some n"
  then show "step6 E w =
           (Done, w\<lparr>files := AList.update (gradlew E)
                      (case n of File c m \<Rightarrow> File c 493 | Dir m \<Rightarrow> Dir 493) (files w),
                    printed := printed w @ [Ok ''gradlew executable'']\<rparr>)"
    by (rule step6_present)
next
  fix w' assume "run E w = (Done, w')"
  then obtain w5 w6 where "step6 E w5 = (Done, w6)" and 7: "step7 E w6 = (Done, w')"
    unfolding run_steps_0_to_5 and_then_Done_iff by blast
  from step6_Done [OF this(1)] obtain n where
    n: "lookup (files w6) (gradlew E) = Some n" "mode_of n = 493" by blast
  have "files w' = files w6" using 7 by (auto simp: step7_Done)
  with n show "\<exists>n. lookup (files w') (gradlew E) = Some n \<and> mode_of n = 493" by auto
qed

theorem gradlew_made_executable_witness:
  "\<not> path_exists
       [([], Dir 493), ([''p''], Dir 493), ([''p'', ''app''], Dir 493),
        ([''p'', ''settings.gradle''], File (str ''x'') 420),
        ([''p'', ''build.gradle''], File (str ''y'') 420),
        ([''p'', ''.prepush_backup''], Dir 493),
        ([''p'', ''gradle''], Dir 493),
        ([''p'', ''gradle'', ''wrapper''], Dir 493),
        ([''p'', ''gradle'', ''wrapper'', ''gradle-wrapper.properties''], File [] 420),
        ([''p'', ''gradle'', ''wrapper'', ''gradle-wrapper.jar''], File [] 420)]
       [''p'', ''gradlew'']
   \<and> fst (run
        \<lparr>cwd = [''p''], new_file_mode = 420, new_dir_mode = 493,
         now = \<lparr>year = 2024, month = 3, day = 7, hour = 9, minute = 5, second = 1\<rparr>,
         fetch = Unreachable, unzip = (\<lambda>b. None)\<rparr>
        \<lparr>files = [([], Dir 493), ([''p''], Dir 493), ([''p'', ''app''], Dir 493),
             ([''p'', ''settings.gradle''], File (str ''x'') 420),
             ([''p'', ''build.gradle''], File (str ''y'') 420),
             ([''p'', ''.prepush_backup''], Dir 493),
             ([''p'', ''gradle''], Dir 493),
             ([''p'', ''gradle'', ''wrapper''], Dir 493),
             ([''p'', ''gradle'', ''wrapper'', ''gradle-wrapper.properties''], File [] 420),
             ([''p'', ''gradle'', ''wrapper'', ''gradle-wrapper.jar''], File [] 420)],
         printed = [], requests = []\<rparr>) = Exited 1
   \<and> last (printed (snd (run
        \<lparr>cwd = [''p''], new_file_mode = 420, new_dir_mode = 493,
         now = \<lparr>year = 2024, month = 3, day = 7, hour = 9, minute = 5, second = 1\<rparr>,
         fetch = Unreachable, unzip = (\<lambda>b. None)\<rparr>
        \<lparr>files = [([], Dir 493), ([''p''], Dir 493), ([''p'', ''app''], Dir 493),
             ([''p'', ''settings.gradle''], File (str ''x'') 420),
             ([''p'', ''build.gradle''], File (str ''y'') 420),
             ([''p'', ''.prepush_backup''], Dir 493),
             ([''p'', ''gradle''], Dir 493),
             ([''p'', ''gradle'', ''wrapper''], Dir 493),
             ([''p'', ''gradle'', ''wrapper'', ''gradle-wrapper.properties''], File [] 420),
             ([''p'', ''gradle'', ''wrapper'', ''gradle-wrapper.jar''], File [] 420)],
         printed = [], requests = []\<rparr>))) = Fail ''gradlew script missing''
   \<and> fst (run
        \<lparr>cwd = [''p''], new_file_mode = 420, new_dir_mode = 493,
         now = \<lparr>year = 2024, month = 3, day = 7, hour = 9, minute = 5, second = 1\<rparr>,
         fetch = Unreachable, unzip = (\<lambda>b. None)\<rparr>
        \<lparr>files = [([], Dir 493), ([''p''], Dir 493), ([''p'', ''app''], Dir 493),
             ([''p'', ''settings.gradle''], File (str ''x'') 420),
             ([''p'', ''build.gradle''], File (str ''y'') 420),
             ([''p'', ''.prepush_backup''], Dir 493),
             ([''p'', ''gradle''], Dir 493),
             ([''p'', ''gradle'', ''wrapper''], Dir 493),
             ([''p'', ''gradle'', ''wrapper'', ''gradle-wrapper.properties''], File [] 420),
             ([''p'', ''gradle'', ''wrapper'', ''gradle-wrapper.jar''], File [] 420),
             ([''p'', ''gradlew''], File (str ''#!/bin/sh'') 420)],
         printed = [], requests = []\<rparr>) = Done
   \<and> lookup (files (snd (run
        \<lparr>cwd = [''p''], new_file_mode = 420, new_dir_mode = 493,
         now = \<lparr>year = 2024, month = 3, day = 7, hour = 9, minute = 5, second = 1\<rparr>,
         fetch = Unreachable, unzip = (\<lambda>b. None)\<rparr>
        \<lparr>files = [([], Dir 493), ([''p''], Dir 493), ([''p'', ''app''], Dir 493),
             ([''p'', ''settings.gradle''], File (str ''x'') 420),
             ([''p'', ''build.gradle''], File (str ''y'') 420),
             ([''p'', ''.prepush_backup''], Dir 493),
             ([''p'', ''gradle''], Dir 493),
             ([''p'', ''gradle'', ''wrapper''], Dir 493),
             ([''p'', ''gradle'', ''wrapper'', ''gradle-wrapper.properties''], File [] 420),
             ([''p'', ''gradle'', ''wrapper'', ''gradle-wrapper.jar''], File [] 420),
             ([''p'', ''gradlew''], File (str ''#!/bin/sh'') 420)],
         printed = [], requests = []\<rparr>))) [''p'', ''gradlew'']
       = Some (File (str ''#!/bin/sh'') 493)"
proof -
  let ?E = "\<lparr>cwd = [''p''], new_file_mode = 420, new_dir_mode = 493,
         now = \<lparr>year = 2024, month = 3, day = 7, hour = 9, minute = 5, second = 1\<rparr>,
         fetch = Unreachable, unzip = (\<lambda>b. None)\<rparr>"
  let ?t = "[([], Dir 493), ([''p''], Dir 493), ([''p'', ''app''], Dir 493),
             ([''p'', ''settings.gradle''], File (str ''x'') 420),
             ([''p'', ''build.gradle''], File (str ''y'') 420),
             ([''p'', ''.prepush_backup''], Dir 493),
             ([''p'', ''gradle''], Dir 493),
             ([''p'', ''gradle'', ''wrapper''], Dir 493),
             ([''p'', ''gradle'', ''wrapper'', ''gradle-wrapper.properties''], File [] 420),
             ([''p'', ''gradle'', ''wrapper'', ''gradle-wrapper.jar''], File [] 420)]"
  let ?A = "\<lparr>files = ?t, printed = [], requests = []\<rparr>"
  let ?B = "\<lparr>files = ?t @ [([''p'', ''gradlew''], File (str ''#!/bin/sh'') 420)],
         printed = [], requests = []\<rparr>"
  have m: "\<not> path_exists (files ?A) (gradlew ?E)"
    by (simp add: gradlew_def path_exists_def lookup_def)
  have "\<exists>w5. steps_0_to_5 ?E ?A = (Done, w5)"
    by (simp add: script_defs fs_defs mkdir_parents.simps text_defs)
  then obtain w5 where s: "steps_0_to_5 ?E ?A = (Done, w5)" ..
  from gradlew_made_executable [of ?A ?E] m s
  have a: "run ?E ?A = (Exited 1, say (Fail ''gradlew script missing'') w5)" by blast
  have "\<exists>w'. run ?E ?B = (Done, w')"
    by (simp add: script_defs fs_defs mkdir_parents.simps text_defs)
  then obtain w' where r: "run ?E ?B = (Done, w')" ..
  from gradlew_made_executable [of ?B ?E] r
  obtain n where n: "lookup (files w') (gradlew ?E) = Some n" "mode_of n = 493" by blast
  have "\<exists>m. lookup (files (snd (run ?E ?B))) (gradlew ?E) = Some (File (str ''#!/bin/sh'') m)"
    by (simp add: script_defs fs_defs mkdir_parents.simps text_defs)
  then obtain k where "lookup (files w') (gradlew ?E) = Some (File (str ''#!/bin/sh'') k)"
    using r by auto
  with n have l: "lookup (files w') (gradlew ?E) = Some (File (str ''#!/bin/sh'') 493)"
    by (simp add: mode_of_def)
  from m a r l show ?thesis by (simp add: gradlew_def say_def)
qed

text \<open>
  C6. The wrapper jar is missing, the download arrives and is written to the archive file
  in the working directory, and the archive that is read from it has no entry whose name
  ends in \<^verbatim>\<open>gradle-wrapper.jar\<close>. Then the wrapper step ends the script with exit
  status 1 after the line that says that the jar was not found; the address was requested
  once, and the file system is the one left by the download: the archive file is there
  with the bytes received, and nothing else has changed. A run that comes to this step
  in such a state ends in the same way.
\<close>

theorem archive_without_wrapper_jar:
  assumes "\<not> path_exists (files w) (wrapper_jar E)"
    and "fetch E = Fetched b" and "unzip E b = Some z"
    and "filter (\<lambda>n. endswith n ''gradle-wrapper.jar'') (namelist z) = []"
    and "is_dir (files w) (cwd E)" and "\<not> is_dir (files w) (zip_path E)"
  shows "ensure_jar E w =
           (Exited 1,
            w\<lparr>files := AList.update (zip_path E)
                 (File b (case lookup (files w) (zip_path E) of
                            Some (File c' m') \<Rightarrow> m' | _ \<Rightarrow> new_file_mode E)) (files w),
              printed := printed w @
                [Info ''Downloading Gradle 8.2.1 wrapper'',
                 Fail ''gradle-wrapper.jar not found in Gradle distribution''],
              requests := requests w @ [url]\<rparr>)
       \<and> content_of (the (lookup (files (snd (ensure_jar E w))) (zip_path E))) = Some b
       \<and> path_exists (files (snd (ensure_jar E w))) (zip_path E)
       \<and> (\<forall>q. q \<noteq> zip_path E \<longrightarrow>
              lookup (files (snd (ensure_jar E w))) q = lookup (files w) q)
       \<and> (\<forall>w0. steps_before_jar E w0 = (Done, w) \<longrightarrow>
              run E w0 = ensure_jar E w \<and> exit_status (fst (run E w0)) = 1)"
proof -
  let ?m = "case lookup (files w) (zip_path E) of Some (File c' m') \<Rightarrow> m' | _ \<Rightarrow> new_file_mode E"
  let ?t = "AList.update (zip_path E) (File b ?m) (files w)"
  have bl: "butlast (zip_path E) = cwd E" by (simp add: zip_path_def)
  have wr: "write_file (files w) (zip_path E) b (new_file_mode E) = (None, ?t)"
    using assms(5,6) by (intro write_file_new) (simp_all add: bl)
  have lz: "lookup ?t (zip_path E) = Some (File b ?m)" by (simp add: lookup_update)
  have e: "ensure_jar E w =
           (Exited 1,
            w\<lparr>files := ?t,
              printed := printed w @
                [Info ''Downloading Gradle 8.2.1 wrapper'',
                 Fail ''gradle-wrapper.jar not found in Gradle distribution''],
              requests := requests w @ [url]\<rparr>)"
    using assms(1-4) wr lz
    by (simp add: ensure_jar_def and_then_def tell_def say_def urlretrieve_def Let_def
        attempt_def open_zip_def install_jar_none die_def GRADLE_VERSION_def)
  have r: "run E w0 = ensure_jar E w \<and> exit_status (fst (run E w0)) = 1"
    if "steps_before_jar E w0 = (Done, w)" for w0
    using that e by (simp add: run_steps_before_jar and_then_def exit_status_def)
  from e lz r show ?thesis
    by (simp add: content_of_def path_exists_def lookup_update exit_status_def)
qed


theorem archive_without_wrapper_jar_witness:
  "fst (run
        \<lparr>cwd = [''p''], new_file_mode = 420, new_dir_mode = 493,
         now = \<lparr>year = 2024, month = 3, day = 7, hour = 9, minute = 5, second = 1\<rparr>,
         fetch = Fetched [80, 75, 3, 4],
         unzip = (\<lambda>b. if b = [80, 75, 3, 4]
                      then Some [(''gradle-8.2.1/README'', [82]),
                                 (''gradle-8.2.1/lib/gradle-wrapper.jar.sha256'', [83])]
                      else None)\<rparr>
        \<lparr>files = [([], Dir 493), ([''p''], Dir 493), ([''p'', ''app''], Dir 493),
             ([''p'', ''settings.gradle''], File (str ''x'') 420),
             ([''p'', ''build.gradle''], File (str ''y'') 420),
             ([''p'', ''gradlew''], File (str ''#!/bin/sh'') 420)],
         printed = [], requests = []\<rparr>) = Exited 1
   \<and> last (printed (snd (run
        \<lparr>cwd = [''p''], new_file_mode = 420, new_dir_mode = 493,
         now = \<lparr>year = 2024, month = 3, day = 7, hour = 9, minute = 5, second = 1\<rparr>,
         fetch = Fetched [80, 75, 3, 4],
         unzip = (\<lambda>b. if b = [80, 75, 3, 4]
                      then Some [(''gradle-8.2.1/README'', [82]),
                                 (''gradle-8.2.1/lib/gradle-wrapper.jar.sha256'', [83])]
                      else None)\<rparr>
        \<lparr>files = [([], Dir 493), ([''p''], Dir 493), ([''p'', ''app''], Dir 493),
             ([''p'', ''settings.gradle''], File (str ''x'') 420),
             ([''p'', ''build.gradle''], File (str ''y'') 420),
             ([''p'', ''gradlew''], File (str ''#!/bin/sh'') 420)],
         printed = [], requests = []\<rparr>))) =
       Fail ''gradle-wrapper.jar not found in Gradle distribution''
   \<and> requests (snd (run
        \<lparr>cwd = [''p''], new_file_mode = 420, new_dir_mode = 493,
         now = \<lparr>year = 2024, month = 3, day = 7, hour = 9, minute = 5, second = 1\<rparr>,
         fetch = Fetched [80, 75, 3, 4],
         unzip = (\<lambda>b. if b = [80, 75, 3, 4]
                      then Some [(''gradle-8.2.1/README'', [82]),
                                 (''gradle-8.2.1/lib/gradle-wrapper.jar.sha256'', [83])]
                      else None)\<rparr>
        \<lparr>files = [([], Dir 493), ([''p''], Dir 493), ([''p'', ''app''], Dir 493),
             ([''p'', ''settings.gradle''], File (str ''x'') 420),
             ([''p'', ''build.gradle''], File (str ''y'') 420),
             ([''p'', ''gradlew''], File (str ''#!/bin/sh'') 420)],
         printed = [], requests = []\<rparr>)) =
       [''https://services.gradle.org/distributions/gradle-8.2.1-bin.zip'']
   \<and> lookup (files (snd (run
        \<lparr>cwd = [''p''], new_file_mode = 420, new_dir_mode = 493,
         now = \<lparr>year = 2024, month = 3, day = 7, hour = 9, minute = 5, second = 1\<rparr>,
         fetch = Fetched [80, 75, 3, 4],
         unzip = (\<lambda>b. if b = [80, 75, 3, 4]
                      then Some [(''gradle-8.2.1/README'', [82]),
                                 (''gradle-8.2.1/lib/gradle-wrapper.jar.sha256'', [83])]
                      else None)\<rparr>
        \<lparr>files = [([], Dir 493), ([''p''], Dir 493), ([''p'', ''app''], Dir 493),
             ([''p'', ''settings.gradle''], File (str ''x'') 420),
             ([''p'', ''build.gradle''], File (str ''y'') 420),
             ([''p'', ''gradlew''], File (str ''#!/bin/sh'') 420)],
         printed = [], requests = []\<rparr>))) [''p'', ''gradle-8.2.1.zip''] = Some (File [80, 75, 3, 4] 420)"
proof -
  let ?E = "\<lparr>cwd = [''p''], new_file_mode = 420, new_dir_mode = 493,
         now = \<lparr>year = 2024, month = 3, day = 7, hour = 9, minute = 5, second = 1\<rparr>,
         fetch = Fetched [80, 75, 3, 4],
         unzip = (\<lambda>b. if b = [80, 75, 3, 4]
                      then Some [(''gradle-8.2.1/README'', [82]),
                                 (''gradle-8.2.1/lib/gradle-wrapper.jar.sha256'', [83])]
                      else None)\<rparr>"
  let ?w0 = "\<lparr>files = [([], Dir 493), ([''p''], Dir 493), ([''p'', ''app''], Dir 493),
             ([''p'', ''settings.gradle''], File (str ''x'') 420),
             ([''p'', ''build.gradle''], File (str ''y'') 420),
             ([''p'', ''gradlew''], File (str ''#!/bin/sh'') 420)],
         printed = [], requests = []\<rparr>"
  have "\<exists>w. steps_before_jar ?E ?w0 = (Done, w) \<and> \<not> path_exists (files w) (wrapper_jar ?E)
      \<and> is_dir (files w) (cwd ?E) \<and> \<not> is_dir (files w) (zip_path ?E)
      \<and> lookup (files w) (zip_path ?E) = None \<and> requests w = []"
    by (simp add: steps_before_jar_def script_defs fs_defs mkdir_parents.simps text_defs)
  then obtain w where w: "steps_before_jar ?E ?w0 = (Done, w)"
    "\<not> path_exists (files w) (wrapper_jar ?E)" "is_dir (files w) (cwd ?E)"
    "\<not> is_dir (files w) (zip_path ?E)" "lookup (files w) (zip_path ?E) = None" "requests w = []"
    by blast
  have f: "fetch ?E = Fetched [80, 75, 3, 4]" by simp
  have u: "unzip ?E [80, 75, 3, 4] = Some [(''gradle-8.2.1/README'', [82]),
                                 (''gradle-8.2.1/lib/gradle-wrapper.jar.sha256'', [83])]"
    by simp
  have n: "filter (\<lambda>n. endswith n ''gradle-wrapper.jar'')
      (namelist [(''gradle-8.2.1/README'', [82]),
                 (''gradle-8.2.1/lib/gradle-wrapper.jar.sha256'', [83])]) = []"
    by (simp add: namelist_def endswith_def)
  note t = archive_without_wrapper_jar [OF w(2) f u n w(3) w(4)]
  from t w(1) have r: "run ?E ?w0 = ensure_jar ?E w" by blast
  from t have e: "ensure_jar ?E w =
           (Exited 1,
            w\<lparr>files := AList.update (zip_path ?E)
                 (File [80, 75, 3, 4] (case lookup (files w) (zip_path ?E) of
                            Some (File c' m') \<Rightarrow> m' | _ \<Rightarrow> new_file_mode ?E)) (files w),
              printed := printed w @
                [Info ''Downloading Gradle 8.2.1 wrapper'',
                 Fail ''gradle-wrapper.jar not found in Gradle distribution''],
              requests := requests w @ [url]\<rparr>)"
    by blast
  show ?thesis
    unfolding r e using w(5,6) by (simp add: lookup_update zip_path_def url_def GRADLE_VERSION_def)
qed

text \<open>
  C5. When \<^verbatim>\<open>gradle/wrapper/gradle-wrapper.properties\<close> exists, the sub-step that
  would write it does nothing. When \<^verbatim>\<open>gradle/wrapper/gradle-wrapper.jar\<close> exists, as a
  file of any content, also none, or as anything else, the sub-step that would install it
  only prints that it is present: it requests no address and changes no file. A whole run
  that starts with the jar in place, however it ends, requests no address and leaves the
  jar as it was, and with it every path below the wrapper directory, but for the
  properties file that it writes when that is missing.
\<close>

theorem wrapper_guards:
  "(path_exists (files w) (wrapper_props E) \<longrightarrow> ensure_props E w = (Done, w))
   \<and> (path_exists (files w) (wrapper_jar E) \<longrightarrow>
         ensure_jar E w =
           (Done, w\<lparr>printed := printed w @ [Ok ''gradle-wrapper.jar already present'']\<rparr>)
       \<and> requests (snd (run E w)) = requests w
       \<and> lookup (files (snd (run E w))) (wrapper_jar E) = lookup (files w) (wrapper_jar E)
       \<and> (\<forall>q. below (wrapper_dir E) q \<and>
                (q = wrapper_props E \<longrightarrow> path_exists (files w) (wrapper_props E)) \<longrightarrow>
                lookup (files (snd (run E w))) q = lookup (files w) q))"
proof (intro conjI impI allI)
  assume "path_exists (files w) (wrapper_props E)"
  then show "ensure_props E w = (Done, w)" by (rule ensure_props_present)
next
  assume j: "path_exists (files w) (wrapper_jar E)"
  then show "ensure_jar E w =
           (Done, w\<lparr>printed := printed w @ [Ok ''gradle-wrapper.jar already present'']\<rparr>)"
    by (rule ensure_jar_present)
  from j obtain n where n: "lookup (files w) (wrapper_jar E) = Some n"
    by (auto simp: path_exists_def)
  have bj: "below (wrapper_dir E) (wrapper_jar E)"
    by (simp add: below_def wrapper_jar_def strict_prefix_def)
  have jp: "wrapper_jar E \<noteq> wrapper_props E"
    by (simp add: wrapper_jar_def wrapper_props_def)
  from preservesD [OF preserves_with_jar [of E "wrapper_jar E" "Some n" n "requests w"], of w] bj jp n
  show "requests (snd (run E w)) = requests w"
    and "lookup (files (snd (run E w))) (wrapper_jar E) = lookup (files w) (wrapper_jar E)"
    by simp_all
  fix q
  assume q: "below (wrapper_dir E) q \<and>
                (q = wrapper_props E \<longrightarrow> path_exists (files w) (wrapper_props E))"
  then have "q = wrapper_props E \<longrightarrow> lookup (files w) q \<noteq> None"
    by (auto simp: path_exists_def)
  with preservesD [OF preserves_with_jar [of E q "lookup (files w) q" n "requests w"], of w] q n
  show "lookup (files (snd (run E w))) q = lookup (files w) q"
    by simp
qed


theorem wrapper_guards_witness:
  "requests (snd (run
        \<lparr>cwd = [''p''], new_file_mode = 420, new_dir_mode = 493,
         now = \<lparr>year = 2024, month = 3, day = 7, hour = 9, minute = 5, second = 1\<rparr>,
         fetch = Fetched [80, 75, 3, 4], unzip = (\<lambda>b. None)\<rparr>
        \<lparr>files = [([], Dir 493), ([''p''], Dir 493), ([''p'', ''app''], Dir 493),
             ([''p'', ''settings.gradle''], File (str ''x'') 420),
             ([''p'', ''build.gradle''], File (str ''y'') 420),
             ([''p'', ''gradle''], Dir 493),
             ([''p'', ''gradle'', ''wrapper''], Dir 493),
             ([''p'', ''gradle'', ''wrapper'', ''gradle-wrapper.properties''],
              File (str ''distributionUrl=mine'') 384),
             ([''p'', ''gradle'', ''wrapper'', ''gradle-wrapper.jar''], File [] 416)],
         printed = [], requests = []\<rparr>)) = []
   \<and> lookup (files (snd (run
        \<lparr>cwd = [''p''], new_file_mode = 420, new_dir_mode = 493,
         now = \<lparr>year = 2024, month = 3, day = 7, hour = 9, minute = 5, second = 1\<rparr>,
         fetch = Fetched [80, 75, 3, 4], unzip = (\<lambda>b. None)\<rparr>
        \<lparr>files = [([], Dir 493), ([''p''], Dir 493), ([''p'', ''app''], Dir 493),
             ([''p'', ''settings.gradle''], File (str ''x'') 420),
             ([''p'', ''build.gradle''], File (str ''y'') 420),
             ([''p'', ''gradle''], Dir 493),
             ([''p'', ''gradle'', ''wrapper''], Dir 493),
             ([''p'', ''gradle'', ''wrapper'', ''gradle-wrapper.properties''],
              File (str ''distributionUrl=mine'') 384),
             ([''p'', ''gradle'', ''wrapper'', ''gradle-wrapper.jar''], File [] 416)],
         printed = [], requests = []\<rparr>))) [''p'', ''gradle'', ''wrapper'', ''gradle-wrapper.jar'']
       = Some (File [] 416)
   \<and> lookup (files (snd (run
        \<lparr>cwd = [''p''], new_file_mode = 420, new_dir_mode = 493,
         now = \<lparr>year = 2024, month = 3, day = 7, hour = 9, minute = 5, second = 1\<rparr>,
         fetch = Fetched [80, 75, 3, 4], unzip = (\<lambda>b. None)\<rparr>
        \<lparr>files = [([], Dir 493), ([''p''], Dir 493), ([''p'', ''app''], Dir 493),
             ([''p'', ''settings.gradle''], File (str ''x'') 420),
             ([''p'', ''build.gradle''], File (str ''y'') 420),
             ([''p'', ''gradle''], Dir 493),
             ([''p'', ''gradle'', ''wrapper''], Dir 493),
             ([''p'', ''gradle'', ''wrapper'', ''gradle-wrapper.properties''],
              File (str ''distributionUrl=mine'') 384),
             ([''p'', ''gradle'', ''wrapper'', ''gradle-wrapper.jar''], File [] 416)],
         printed = [], requests = []\<rparr>))) [''p'', ''gradle'', ''wrapper'', ''gradle-wrapper.properties'']
       = Some (File (str ''distributionUrl=mine'') 384)
   \<and> ensure_props
        \<lparr>cwd = [''p''], new_file_mode = 420, new_dir_mode = 493,
         now = \<lparr>year = 2024, month = 3, day = 7, hour = 9, minute = 5, second = 1\<rparr>,
         fetch = Fetched [80, 75, 3, 4], unzip = (\<lambda>b. None)\<rparr>
        \<lparr>files = [([], Dir 493), ([''p''], Dir 493), ([''p'', ''app''], Dir 493),
             ([''p'', ''settings.gradle''], File (str ''x'') 420),
             ([''p'', ''build.gradle''], File (str ''y'') 420),
             ([''p'', ''gradle''], Dir 493),
             ([''p'', ''gradle'', ''wrapper''], Dir 493),
             ([''p'', ''gradle'', ''wrapper'', ''gradle-wrapper.properties''],
              File (str ''distributionUrl=mine'') 384),
             ([''p'', ''gradle'', ''wrapper'', ''gradle-wrapper.jar''], File [] 416)],
         printed = [], requests = []\<rparr>
       = (Done, \<lparr>files = [([], Dir 493), ([''p''], Dir 493), ([''p'', ''app''], Dir 493),
             ([''p'', ''settings.gradle''], File (str ''x'') 420),
             ([''p'', ''build.gradle''], File (str ''y'') 420),
             ([''p'', ''gradle''], Dir 493),
             ([''p'', ''gradle'', ''wrapper''], Dir 493),
             ([''p'', ''gradle'', ''wrapper'', ''gradle-wrapper.properties''],
              File (str ''distributionUrl=mine'') 384),
             ([''p'', ''gradle'', ''wrapper'', ''gradle-wrapper.jar''], File [] 416)],
         printed = [], requests = []\<rparr>)"
proof -
  let ?E = "\<lparr>cwd = [''p''], new_file_mode = 420, new_dir_mode = 493,
         now = \<lparr>year = 2024, month = 3, day = 7, hour = 9, minute = 5, second = 1\<rparr>,
         fetch = Fetched [80, 75, 3, 4], unzip = (\<lambda>b. None)\<rparr>"
  let ?w = "\<lparr>files = [([], Dir 493), ([''p''], Dir 493), ([''p'', ''app''], Dir 493),
             ([''p'', ''settings.gradle''], File (str ''x'') 420),
             ([''p'', ''build.gradle''], File (str ''y'') 420),
             ([''p'', ''gradle''], Dir 493),
             ([''p'', ''gradle'', ''wrapper''], Dir 493),
             ([''p'', ''gradle'', ''wrapper'', ''gradle-wrapper.properties''],
              File (str ''distributionUrl=mine'') 384),
             ([''p'', ''gradle'', ''wrapper'', ''gradle-wrapper.jar''], File [] 416)],
         printed = [], requests = []\<rparr>"
  have j: "path_exists (files ?w) (wrapper_jar ?E)"
    and p: "path_exists (files ?w) (wrapper_props ?E)"
    and b: "below (wrapper_dir ?E) (wrapper_props ?E)"
    by (simp_all add: path_exists_def lookup_def wrapper_jar_def wrapper_props_def
        wrapper_dir_def below_def strict_prefix_def)
  note t = wrapper_guards [of ?w ?E]
  from t p have 1: "ensure_props ?E ?w = (Done, ?w)" by blast
  from t j have 2: "requests (snd (run ?E ?w)) = requests ?w" by blast
  from t j have 3: "lookup (files (snd (run ?E ?w))) (wrapper_jar ?E) =
      lookup (files ?w) (wrapper_jar ?E)" by blast
  from t j p b have 4: "lookup (files (snd (run ?E ?w))) (wrapper_props ?E) =
      lookup (files ?w) (wrapper_props ?E)" by blast
  have j3: "lookup (files (snd (run ?E ?w))) [''p'', ''gradle'', ''wrapper'', ''gradle-wrapper.jar'']
       = Some (File [] 416)"
    using 3 by (simp add: wrapper_jar_def wrapper_dir_def lookup_def)
  have p4: "lookup (files (snd (run ?E ?w))) [''p'', ''gradle'', ''wrapper'', ''gradle-wrapper.properties'']
       = Some (File (str ''distributionUrl=mine'') 384)"
    using 4 by (simp add: wrapper_props_def wrapper_dir_def lookup_def)
  from 1 2 j3 p4 show ?thesis by simp
qed

text \<open>
  C2. Two runs in the same directory, one after the other with nothing changed between
  them, each reaching its end; the second may see another time and another answer to a
  download. After each of them \<^verbatim>\<open>settings.gradle\<close> holds the fixed settings text and
  \<^verbatim>\<open>build.gradle\<close> the fixed build text, so both are the same both times; after the
  first, \<^verbatim>\<open>gradle.properties\<close> holds the text that step 4 makes of what was there, and
  the second run leaves that text as it is. And whatever text \<^verbatim>\<open>gradle.properties\<close>
  holds before a run, with keys that a user has added, the run writes the text made of it:
  read back it is the table, every key of the lines read is a key of the table, and every
  such key that is not one of the three mandatory keys has the value of its last line.
\<close>

theorem rerun_identical:
  assumes "run E w = (Done, w1)" and "cwd E' = cwd E" and "run E' w1 = (Done, w2)"
  shows "file_content (files w1) (cwd E @ [''settings.gradle'']) = Some settings_gradle_text
       \<and> file_content (files w2) (cwd E @ [''settings.gradle'']) = Some settings_gradle_text
       \<and> file_content (files w1) (cwd E @ [''build.gradle'']) = Some build_gradle_text
       \<and> file_content (files w2) (cwd E @ [''build.gradle'']) = Some build_gradle_text
       \<and> file_content (files w1) (cwd E @ [''gradle.properties'']) =
           Some (enforce_props (file_content (files w) (cwd E @ [''gradle.properties''])))
       \<and> file_content (files w2) (cwd E @ [''gradle.properties'']) =
           file_content (files w1) (cwd E @ [''gradle.properties''])
       \<and> (\<forall>u u' c. file_content (files u) (cwd E @ [''gradle.properties'']) = Some c \<and>
              run E' u = (Done, u') \<longrightarrow>
              file_content (files u') (cwd E @ [''gradle.properties'']) =
                Some (enforce_props (Some c))
            \<and> file_pairs (enforce_props (Some c)) = props_table (Some c)
            \<and> (\<forall>k \<in> fst ` set (file_pairs c).
                  k \<in> fst ` set (props_table (Some c)) \<and>
                  (k \<notin> fst ` set mandatory \<longrightarrow>
                     map_of (props_table (Some c)) k = last_value (file_pairs c) k)))"
proof -
  note a = run_Done_files [OF assms(1)]
  note b = run_Done_files [OF assms(3), unfolded assms(2)]
  from a(1) have s1: "file_content (files w1) (cwd E @ [''settings.gradle'']) = Some settings_gradle_text"
    by (auto simp: file_content_def)
  from b(1) have s2: "file_content (files w2) (cwd E @ [''settings.gradle'']) = Some settings_gradle_text"
    by (auto simp: file_content_def)
  from a(2) have b1: "file_content (files w1) (cwd E @ [''build.gradle'']) = Some build_gradle_text"
    by (auto simp: file_content_def)
  from b(2) have b2: "file_content (files w2) (cwd E @ [''build.gradle'']) = Some build_gradle_text"
    by (auto simp: file_content_def)
  from a(3) have p1: "file_content (files w1) (cwd E @ [''gradle.properties'']) =
      Some (enforce_props (file_content (files w) (cwd E @ [''gradle.properties''])))"
    by (auto simp: file_content_def)
  from b(3) have "file_content (files w2) (cwd E @ [''gradle.properties'']) =
      Some (enforce_props (file_content (files w1) (cwd E @ [''gradle.properties''])))"
    by (auto simp: file_content_def)
  then have p2: "file_content (files w2) (cwd E @ [''gradle.properties'']) =
      file_content (files w1) (cwd E @ [''gradle.properties''])"
    by (simp add: p1 enforce_props_idem)
  have u: "file_content (files u') (cwd E @ [''gradle.properties'']) =
                Some (enforce_props (Some c))
            \<and> file_pairs (enforce_props (Some c)) = props_table (Some c)
            \<and> (\<forall>k \<in> fst ` set (file_pairs c).
                  k \<in> fst ` set (props_table (Some c)) \<and>
                  (k \<notin> fst ` set mandatory \<longrightarrow>
                     map_of (props_table (Some c)) k = last_value (file_pairs c) k))"
    if "file_content (files u) (cwd E @ [''gradle.properties'']) = Some c"
      and "run E' u = (Done, u')" for u u' c
  proof -
    from run_Done_files(3) [OF that(2), unfolded assms(2)] that(1)
    have "file_content (files u') (cwd E @ [''gradle.properties'']) = Some (enforce_props (Some c))"
      by (auto simp: file_content_def)
    moreover have "file_pairs (enforce_props (Some c)) = props_table (Some c)"
      by (simp add: enforce_props_def file_pairs_render)
    ultimately show ?thesis using user_keys_kept [of _ c] by blast
  qed
  from s1 s2 b1 b2 p1 p2 u show ?thesis by blast
qed

theorem rerun_identical_witness:
  "fst (run
        \<lparr>cwd = [''p''], new_file_mode = 420, new_dir_mode = 493,
         now = \<lparr>year = 2024, month = 3, day = 7, hour = 9, minute = 5, second = 1\<rparr>,
         fetch = Unreachable, unzip = (\<lambda>b. None)\<rparr>
        \<lparr>files = [([], Dir 493), ([''p''], Dir 493), ([''p'', ''app''], Dir 493),
             ([''p'', ''settings.gradle''], File (str ''include(\":app\")'') 420),
             ([''p'', ''build.gradle''], File (str ''buildscript {}'') 420),
             ([''p'', ''gradle.properties''], File (str ''foo=bar'') 420),
             ([''p'', ''gradle''], Dir 493),
             ([''p'', ''gradle'', ''wrapper''], Dir 493),
             ([''p'', ''gradle'', ''wrapper'', ''gradle-wrapper.jar''], File [80, 75] 420),
             ([''p'', ''gradlew''], File (str ''#!/bin/sh'') 420)],
         printed = [], requests = []\<rparr>) = Done
   \<and> fst (run
        \<lparr>cwd = [''p''], new_file_mode = 420, new_dir_mode = 493,
         now = \<lparr>year = 2024, month = 3, day = 8, hour = 10, minute = 0, second = 0\<rparr>,
         fetch = Fetched [1], unzip = (\<lambda>b. None)\<rparr>
     (snd (run
        \<lparr>cwd = [''p''], new_file_mode = 420, new_dir_mode = 493,
         now = \<lparr>year = 2024, month = 3, day = 7, hour = 9, minute = 5, second = 1\<rparr>,
         fetch = Unreachable, unzip = (\<lambda>b. None)\<rparr>
        \<lparr>files = [([], Dir 493), ([''p''], Dir 493), ([''p'', ''app''], Dir 493),
             ([''p'', ''settings.gradle''], File (str ''include(\":app\")'') 420),
             ([''p'', ''build.gradle''], File (str ''buildscript {}'') 420),
             ([''p'', ''gradle.properties''], File (str ''foo=bar'') 420),
             ([''p'', ''gradle''], Dir 493),
             ([''p'', ''gradle'', ''wrapper''], Dir 493),
             ([''p'', ''gradle'', ''wrapper'', ''gradle-wrapper.jar''], File [80, 75] 420),
             ([''p'', ''gradlew''], File (str ''#!/bin/sh'') 420)],
         printed = [], requests = []\<rparr>))) = Done
   \<and> file_content (files (snd (run
        \<lparr>cwd = [''p''], new_file_mode = 420, new_dir_mode = 493,
         now = \<lparr>year = 2024, month = 3, day = 8, hour = 10, minute = 0, second = 0\<rparr>,
         fetch = Fetched [1], unzip = (\<lambda>b. None)\<rparr>
     (snd (run
        \<lparr>cwd = [''p''], new_file_mode = 420, new_dir_mode = 493,
         now = \<lparr>year = 2024, month = 3, day = 7, hour = 9, minute = 5, second = 1\<rparr>,
         fetch = Unreachable, unzip = (\<lambda>b. None)\<rparr>
        \<lparr>files = [([], Dir 493), ([''p''], Dir 493), ([''p'', ''app''], Dir 493),
             ([''p'', ''settings.gradle''], File (str ''include(\":app\")'') 420),
             ([''p'', ''build.gradle''], File (str ''buildscript {}'') 420),
             ([''p'', ''gradle.properties''], File (str ''foo=bar'') 420),
             ([''p'', ''gradle''], Dir 493),
             ([''p'', ''gradle'', ''wrapper''], Dir 493),
             ([''p'', ''gradle'', ''wrapper'', ''gradle-wrapper.jar''], File [80, 75] 420),
             ([''p'', ''gradlew''], File (str ''#!/bin/sh'') 420)],
         printed = [], requests = []\<rparr>))))) [''p'', ''settings.gradle''] =
       file_content (files (snd (run
        \<lparr>cwd = [''p''], new_file_mode = 420, new_dir_mode = 493,
         now = \<lparr>year = 2024, month = 3, day = 7, hour = 9, minute = 5, second = 1\<rparr>,
         fetch = Unreachable, unzip = (\<lambda>b. None)\<rparr>
        \<lparr>files = [([], Dir 493), ([''p''], Dir 493), ([''p'', ''app''], Dir 493),
             ([''p'', ''settings.gradle''], File (str ''include(\":app\")'') 420),
             ([''p'', ''build.gradle''], File (str ''buildscript {}'') 420),
             ([''p'', ''gradle.properties''], File (str ''foo=bar'') 420),
             ([''p'', ''gradle''], Dir 493),
             ([''p'', ''gradle'', ''wrapper''], Dir 493),
             ([''p'', ''gradle'', ''wrapper'', ''gradle-wrapper.jar''], File [80, 75] 420),
             ([''p'', ''gradlew''], File (str ''#!/bin/sh'') 420)],
         printed = [], requests = []\<rparr>))) [''p'', ''settings.gradle'']
   \<and> file_content (files (snd (run
        \<lparr>cwd = [''p''], new_file_mode = 420, new_dir_mode = 493,
         now = \<lparr>year = 2024, month = 3, day = 8, hour = 10, minute = 0, second = 0\<rparr>,
         fetch = Fetched [1], unzip = (\<lambda>b. None)\<rparr>
     (snd (run
        \<lparr>cwd = [''p''], new_file_mode = 420, new_dir_mode = 493,
         now = \<lparr>year = 2024, month = 3, day = 7, hour = 9, minute = 5, second = 1\<rparr>,
         fetch = Unreachable, unzip = (\<lambda>b. None)\<rparr>
        \<lparr>files = [([], Dir 493), ([''p''], Dir 493), ([''p'', ''app''], Dir 493),
             ([''p'', ''settings.gradle''], File (str ''include(\":app\")'') 420),
             ([''p'', ''build.gradle''], File (str ''buildscript {}'') 420),
             ([''p'', ''gradle.properties''], File (str ''foo=bar'') 420),
             ([''p'', ''gradle''], Dir 493),
             ([''p'', ''gradle'', ''wrapper''], Dir 493),
             ([''p'', ''gradle'', ''wrapper'', ''gradle-wrapper.jar''], File [80, 75] 420),
             ([''p'', ''gradlew''], File (str ''#!/bin/sh'') 420)],
         printed = [], requests = []\<rparr>))))) [''p'', ''build.gradle''] =
       file_content (files (snd (run
        \<lparr>cwd = [''p''], new_file_mode = 420, new_dir_mode = 493,
         now = \<lparr>year = 2024, month = 3, day = 7, hour = 9, minute = 5, second = 1\<rparr>,
         fetch = Unreachable, unzip = (\<lambda>b. None)\<rparr>
        \<lparr>files = [([], Dir 493), ([''p''], Dir 493), ([''p'', ''app''], Dir 493),
             ([''p'', ''settings.gradle''], File (str ''include(\":app\")'') 420),
             ([''p'', ''build.gradle''], File (str ''buildscript {}'') 420),
             ([''p'', ''gradle.properties''], File (str ''foo=bar'') 420),
             ([''p'', ''gradle''], Dir 493),
             ([''p'', ''gradle'', ''wrapper''], Dir 493),
             ([''p'', ''gradle'', ''wrapper'', ''gradle-wrapper.jar''], File [80, 75] 420),
             ([''p'', ''gradlew''], File (str ''#!/bin/sh'') 420)],
         printed = [], requests = []\<rparr>))) [''p'', ''build.gradle'']
   \<and> file_content (files (snd (run
        \<lparr>cwd = [''p''], new_file_mode = 420, new_dir_mode = 493,
         now = \<lparr>year = 2024, month = 3, day = 7, hour = 9, minute = 5, second = 1\<rparr>,
         fetch = Unreachable, unzip = (\<lambda>b. None)\<rparr>
        \<lparr>files = [([], Dir 493), ([''p''], Dir 493), ([''p'', ''app''], Dir 493),
             ([''p'', ''settings.gradle''], File (str ''include(\":app\")'') 420),
             ([''p'', ''build.gradle''], File (str ''buildscript {}'') 420),
             ([''p'', ''gradle.properties''], File (str ''foo=bar'') 420),
             ([''p'', ''gradle''], Dir 493),
             ([''p'', ''gradle'', ''wrapper''], Dir 493),
             ([''p'', ''gradle'', ''wrapper'', ''gradle-wrapper.jar''], File [80, 75] 420),
             ([''p'', ''gradlew''], File (str ''#!/bin/sh'') 420)],
         printed = [], requests = []\<rparr>))) [''p'', ''build.gradle''] =
       Some (str ''tasks.register(\"clean\", Delete) {\<newline>    delete rootProject.buildDir\<newline>}\<newline>'')
   \<and> file_content (files (snd (run
        \<lparr>cwd = [''p''], new_file_mode = 420, new_dir_mode = 493,
         now = \<lparr>year = 2024, month = 3, day = 8, hour = 10, minute = 0, second = 0\<rparr>,
         fetch = Fetched [1], unzip = (\<lambda>b. None)\<rparr>
     (snd (run
        \<lparr>cwd = [''p''], new_file_mode = 420, new_dir_mode = 493,
         now = \<lparr>year = 2024, month = 3, day = 7, hour = 9, minute = 5, second = 1\<rparr>,
         fetch = Unreachable, unzip = (\<lambda>b. None)\<rparr>
        \<lparr>files = [([], Dir 493), ([''p''], Dir 493), ([''p'', ''app''], Dir 493),
             ([''p'', ''settings.gradle''], File (str ''include(\":app\")'') 420),
             ([''p'', ''build.gradle''], File (str ''buildscript {}'') 420),
             ([''p'', ''gradle.properties''], File (str ''foo=bar'') 420),
             ([''p'', ''gradle''], Dir 493),
             ([''p'', ''gradle'', ''wrapper''], Dir 493),
             ([''p'', ''gradle'', ''wrapper'', ''gradle-wrapper.jar''], File [80, 75] 420),
             ([''p'', ''gradlew''], File (str ''#!/bin/sh'') 420)],
         printed = [], requests = []\<rparr>))))) [''p'', ''gradle.properties''] =
       file_content (files (snd (run
        \<lparr>cwd = [''p''], new_file_mode = 420, new_dir_mode = 493,
         now = \<lparr>year = 2024, month = 3, day = 7, hour = 9, minute = 5, second = 1\<rparr>,
         fetch = Unreachable, unzip = (\<lambda>b. None)\<rparr>
        \<lparr>files = [([], Dir 493), ([''p''], Dir 493), ([''p'', ''app''], Dir 493),
             ([''p'', ''settings.gradle''], File (str ''include(\":app\")'') 420),
             ([''p'', ''build.gradle''], File (str ''buildscript {}'') 420),
             ([''p'', ''gradle.properties''], File (str ''foo=bar'') 420),
             ([''p'', ''gradle''], Dir 493),
             ([''p'', ''gradle'', ''wrapper''], Dir 493),
             ([''p'', ''gradle'', ''wrapper'', ''gradle-wrapper.jar''], File [80, 75] 420),
             ([''p'', ''gradlew''], File (str ''#!/bin/sh'') 420)],
         printed = [], requests = []\<rparr>))) [''p'', ''gradle.properties'']
   \<and> file_content (files (snd (run
        \<lparr>cwd = [''p''], new_file_mode = 420, new_dir_mode = 493,
         now = \<lparr>year = 2024, month = 3, day = 7, hour = 9, minute = 5, second = 1\<rparr>,
         fetch = Unreachable, unzip = (\<lambda>b. None)\<rparr>
        \<lparr>files = [([], Dir 493), ([''p''], Dir 493), ([''p'', ''app''], Dir 493),
             ([''p'', ''settings.gradle''], File (str ''include(\":app\")'') 420),
             ([''p'', ''build.gradle''], File (str ''buildscript {}'') 420),
             ([''p'', ''gradle.properties''], File (str ''foo=bar'') 420),
             ([''p'', ''gradle''], Dir 493),
             ([''p'', ''gradle'', ''wrapper''], Dir 493),
             ([''p'', ''gradle'', ''wrapper'', ''gradle-wrapper.jar''], File [80, 75] 420),
             ([''p'', ''gradlew''], File (str ''#!/bin/sh'') 420)],
         printed = [], requests = []\<rparr>))) [''p'', ''gradle.properties''] =
       Some (str ''foo=bar\<newline>android.useAndroidX=true\<newline>android.enableJetifier=true\<newline>org.gradle.jvmargs=-Xmx2048m\<newline>'')"
proof -
  let ?E = "\<lparr>cwd = [''p''], new_file_mode = 420, new_dir_mode = 493,
         now = \<lparr>year = 2024, month = 3, day = 7, hour = 9, minute = 5, second = 1\<rparr>,
         fetch = Unreachable, unzip = (\<lambda>b. None)\<rparr>"
  let ?E' = "\<lparr>cwd = [''p''], new_file_mode = 420, new_dir_mode = 493,
         now = \<lparr>year = 2024, month = 3, day = 8, hour = 10, minute = 0, second = 0\<rparr>,
         fetch = Fetched [1], unzip = (\<lambda>b. None)\<rparr>"
  let ?w = "\<lparr>files = [([], Dir 493), ([''p''], Dir 493), ([''p'', ''app''], Dir 493),
             ([''p'', ''settings.gradle''], File (str ''include(\":app\")'') 420),
             ([''p'', ''build.gradle''], File (str ''buildscript {}'') 420),
             ([''p'', ''gradle.properties''], File (str ''foo=bar'') 420),
             ([''p'', ''gradle''], Dir 493),
             ([''p'', ''gradle'', ''wrapper''], Dir 493),
             ([''p'', ''gradle'', ''wrapper'', ''gradle-wrapper.jar''], File [80, 75] 420),
             ([''p'', ''gradlew''], File (str ''#!/bin/sh'') 420)],
         printed = [], requests = []\<rparr>"
  have "\<exists>w1 w2. run ?E ?w = (Done, w1) \<and> run ?E' w1 = (Done, w2)"
    by (simp add: script_defs fs_defs mkdir_parents.simps text_defs literal_def
        settings_gradle_text_def build_gradle_text_def wrapper_props_text_def)
  then obtain w1 w2 where r: "run ?E ?w = (Done, w1)" "run ?E' w1 = (Done, w2)" by blast
  have c: "cwd ?E' = cwd ?E" by simp
  note t = rerun_identical [OF r(1) c r(2)]
  have g: "file_content (files ?w) (cwd ?E @ [''gradle.properties'']) = Some (str ''foo=bar'')"
    by (simp add: file_content_def lookup_def)
  have e: "enforce_props (Some (str ''foo=bar'')) =
      str ''foo=bar\<newline>android.useAndroidX=true\<newline>android.enableJetifier=true\<newline>org.gradle.jvmargs=-Xmx2048m\<newline>''"
    by (simp add: text_defs)
  have b: "build_gradle_text =
      str ''tasks.register(\"clean\", Delete) {\<newline>    delete rootProject.buildDir\<newline>}\<newline>''"
    by (simp add: build_gradle_text_def literal_def text_defs)
  from t have 1: "file_content (files w2) (cwd ?E @ [''settings.gradle'']) =
      file_content (files w1) (cwd ?E @ [''settings.gradle''])" by simp
  from t have 2: "file_content (files w2) (cwd ?E @ [''build.gradle'']) =
      file_content (files w1) (cwd ?E @ [''build.gradle''])" by simp
  from t have 3: "file_content (files w1) (cwd ?E @ [''build.gradle'']) = Some build_gradle_text"
    by simp
  from t have 4: "file_content (files w2) (cwd ?E @ [''gradle.properties'']) =
      file_content (files w1) (cwd ?E @ [''gradle.properties''])" by blast
  from t have 5: "file_content (files w1) (cwd ?E @ [''gradle.properties'']) =
      Some (enforce_props (file_content (files ?w) (cwd ?E @ [''gradle.properties''])))" by blast
  show ?thesis
    unfolding r snd_conv fst_conv
    using 1 2 3 [unfolded b] 4 5 [unfolded g e] by simp
qed




text \<open>
  C4. The backup step, in a well-formed file system where the working directory is a
  directory and none of \<^verbatim>\<open>settings.gradle\<close>, \<^verbatim>\<open>build.gradle\<close> and
  \<^verbatim>\<open>gradle.properties\<close> is one. When \<^verbatim>\<open>.prepush_backup\<close> does not exist, the step
  goes on after it has made that one directory and, for each of the three files that
  exists, one copy in it with the content and the mode of the file, named by the name of
  the file, a dot, the time as \<^verbatim>\<open>strftime("%Y%m%d_%H%M%S")\<close> gives it, and
  \<^verbatim>\<open>.bak\<close>; for a file that does not exist there is no such copy, and every other path
  is as it was. For a year of four digits the time has the shape \<^verbatim>\<open>YYYYMMDD_HHMMSS\<close>.
  When \<^verbatim>\<open>.prepush_backup\<close> exists, the step only prints that it skips the backup, and
  the whole run leaves \<^verbatim>\<open>.prepush_backup\<close> as it was.
\<close>

theorem backup_once:
  "(\<not> path_exists (files w) (BACKUP_DIR E) \<and> wf_fs (files w) \<and> is_dir (files w) (cwd E) \<and>
    (\<forall>f \<in> set backed_up. \<not> is_dir (files w) (cwd E @ [f])) \<longrightarrow>
      (\<exists>w'. step1 E w = (Done, w')
         \<and> printed w' = printed w @ [Ok ''Original files backed up'']
         \<and> requests w' = requests w
         \<and> lookup (files w') (BACKUP_DIR E) = Some (Dir (new_dir_mode E))
         \<and> (\<forall>f \<in> set backed_up.
               lookup (files w') (BACKUP_DIR E @ [f @ ''.'' @ strftime (now E) @ ''.bak'']) =
               lookup (files w) (cwd E @ [f]))
         \<and> (\<forall>q. q \<noteq> BACKUP_DIR E \<and>
                  q \<notin> (\<lambda>f. BACKUP_DIR E @ [f @ ''.'' @ strftime (now E) @ ''.bak''])
                        ` set backed_up \<longrightarrow>
                  lookup (files w') q = lookup (files w) q)))
   \<and> (1000 \<le> year (now E) \<and> year (now E) \<le> 9999 \<longrightarrow> stamp_shape (strftime (now E)))
   \<and> (path_exists (files w) (BACKUP_DIR E) \<longrightarrow>
         step1 E w =
           (Done, w\<lparr>printed := printed w @ [Info ''Backup already exists - skipping'']\<rparr>)
       \<and> lookup (files (snd (run E w))) (BACKUP_DIR E) = lookup (files w) (BACKUP_DIR E))"
proof (intro conjI impI)
  assume "\<not> path_exists (files w) (BACKUP_DIR E) \<and> wf_fs (files w) \<and> is_dir (files w) (cwd E) \<and>
    (\<forall>f \<in> set backed_up. \<not> is_dir (files w) (cwd E @ [f]))"
  then show "\<exists>w'. step1 E w = (Done, w')
         \<and> printed w' = printed w @ [Ok ''Original files backed up'']
         \<and> requests w' = requests w
         \<and> lookup (files w') (BACKUP_DIR E) = Some (Dir (new_dir_mode E))
         \<and> (\<forall>f \<in> set backed_up.
               lookup (files w') (BACKUP_DIR E @ [f @ ''.'' @ strftime (now E) @ ''.bak'']) =
               lookup (files w) (cwd E @ [f]))
         \<and> (\<forall>q. q \<noteq> BACKUP_DIR E \<and>
                  q \<notin> (\<lambda>f. BACKUP_DIR E @ [f @ ''.'' @ strftime (now E) @ ''.bak''])
                        ` set backed_up \<longrightarrow>
                  lookup (files w') q = lookup (files w) q)"
    using step1_fresh [of w E] by (simp add: backup_name_def)
next
  assume "1000 \<le> year (now E) \<and> year (now E) \<le> 9999"
  then show "stamp_shape (strftime (now E))" by (simp add: stamp_shape_strftime)
next
  assume p: "path_exists (files w) (BACKUP_DIR E)"
  then show "step1 E w =
           (Done, w\<lparr>printed := printed w @ [Info ''Backup already exists - skipping'']\<rparr>)"
    by (rule step1_present)
  from p have "lookup (files w) (BACKUP_DIR E) \<noteq> None" by (simp add: path_exists_def)
  from preservesD [OF preserves_backup_dir [OF this], of w]
  show "lookup (files (snd (run E w))) (BACKUP_DIR E) = lookup (files w) (BACKUP_DIR E)"
    by simp
qed


end
